theory Spec2Isabelle
  imports Main "HOL-Library.Sublist"
begin

section \<open>The pipeline specification (package engine)\<close>

text \<open>
  The Docker engine of \<^verbatim>\<open>engine/docker/docker.go\<close> reads a pipeline specification
  and drives a Docker API client. Only the fields that \<^verbatim>\<open>docker.go\<close> reads are kept.
  Go pointers that the code dereferences without a nil check (the steps, volumes and
  file mounts of a specification) are taken to be non-nil; pointers that the code
  compares with nil (\<^verbatim>\<open>spec.Docker\<close>, \<^verbatim>\<open>step.Docker\<close>, \<^verbatim>\<open>vol.EmptyDir\<close>)
  are options.
\<close>

type_synonym labels = "(string \<times> string) list"

record metadata =
  UID :: string
  Name :: string
  Labels :: labels

text \<open>
  Modelled from the spec: the declaration of \<^verbatim>\<open>engine.PullPolicy\<close> is not part of the
  source file. The spec names the policies Always, Default and Never, which are the
  three constants \<^verbatim>\<open>docker.go\<close> compares with; \<open>PullIfNotExists\<close> stands for any
  other value of the Go integer type.
\<close>

datatype PullPolicy = PullDefault | PullAlways | PullIfNotExists | PullNever

record DockerStep =
  Image :: string
  PullPolicy :: PullPolicy

record FileMount =
  MountName :: string
  MountPath :: string
  MountMode :: int

record Step =
  StepMetadata :: metadata
  StepDocker :: "DockerStep option"
  StepFiles :: "FileMount list"

record File =
  FileMetadata :: metadata
  FileData :: string

record DockerAuth =
  Address :: string
  Username :: string
  Password :: string

record Volume =
  VolumeMetadata :: metadata
  EmptyDir :: "unit option"
  HostPath :: "string option"

record DockerConfig =
  Auths :: "DockerAuth list"
  Volumes :: "Volume list"

record Spec =
  SpecMetadata :: metadata
  Steps :: "Step list"
  Files :: "File list"
  Docker :: "DockerConfig option"

record State =
  ExitCode :: int
  Exited :: bool
  OOMKilled :: bool

text \<open>
  Modelled from the spec: \<^verbatim>\<open>engine.LookupFile\<close> is not part of the source file. The
  spec gives it as the function mapping (spec, name) to (bytes, found): the first
  file payload of the specification with that name.
\<close>

definition LookupFile :: "Spec \<Rightarrow> string \<Rightarrow> File option" where
  "LookupFile spec name = find (\<lambda>file. Name (FileMetadata file) = name) (Files spec)"

text \<open>
  Modelled from the spec: \<^verbatim>\<open>engine.LookupAuth\<close> is not part of the source file. The
  spec gives it as the function mapping (spec, domain) to (credentials, found), the
  authorization entries being keyed by registry domain.
\<close>

definition LookupAuth :: "Spec \<Rightarrow> string \<Rightarrow> DockerAuth option" where
  "LookupAuth spec domain =
     (case Docker spec of
        None \<Rightarrow> None
      | Some cfg \<Rightarrow> find (\<lambda>auth. Address auth = domain) (Auths cfg))"

section \<open>Errors\<close>

text \<open>
  Errors are values. \<open>InvalidReference\<close> is the error with which the image
  reference parser rejects a string (the errors of the parser differ in their message
  only, and are one value here); \<open>ImageNotFound\<close> is the error of the Docker client that
  \<^verbatim>\<open>docker.IsErrImageNotFound\<close> recognises; \<open>ClientError\<close> is any other error of the
  Docker client; \<open>EngineError\<close> is an error made by \<^verbatim>\<open>errors.New\<close> in the engine.
\<close>

datatype error =
    EngineError string
  | InvalidReference
  | ImageNotFound string
  | ClientError string

text \<open>
  Modelled from the spec: \<^verbatim>\<open>docker.IsErrImageNotFound\<close> belongs to the Docker client
  library, which is not part of the source file. The spec gives it as the
  distinguishable "image not found" condition among the error signals of the runtime.
  The Go function takes an error that may be nil.
\<close>

fun IsErrImageNotFound :: "error option \<Rightarrow> bool" where
  "IsErrImageNotFound (Some (ImageNotFound _)) = True"
| "IsErrImageNotFound _ = False"

section \<open>Image references\<close>

text \<open>
  Modelled from the spec: \<^verbatim>\<open>parseImage\<close> calls the reference library of the Docker
  distribution (\<^verbatim>\<open>reference.ParseNormalizedNamed\<close>, \<^verbatim>\<open>reference.TagNameOnly\<close>,
  \<^verbatim>\<open>reference.Domain\<close> and \<^verbatim>\<open>String\<close>), which is not part of the source file. The
  spec fixes it as the normalisation of a reference "under standard reference
  grammar", with "the default registry domain and repository path rules of the
  reference's ecosystem". That grammar is

  \<^verbatim>\<open>reference := name [ ":" tag ] [ "@" digest ]\<close>
  \<^verbatim>\<open>name := [domain "/"] path-component ("/" path-component)*\<close>
  \<^verbatim>\<open>domain := domain-component ("." domain-component)* [":" port-number]\<close>
  \<^verbatim>\<open>domain-component := [a-zA-Z0-9] | [a-zA-Z0-9][a-zA-Z0-9-]*[a-zA-Z0-9]\<close>
  \<^verbatim>\<open>port-number := [0-9]+\<close>
  \<^verbatim>\<open>path-component := [a-z0-9]+ (separator [a-z0-9]+)*\<close>
  \<^verbatim>\<open>separator := [_.] | "__" | [-]+\<close>
  \<^verbatim>\<open>tag := [\w][\w.-]{0,127}\<close>
  \<^verbatim>\<open>digest := algorithm ":" hex\<close>

  and the definitions of this section recognise it by splitting the string at its
  delimiters. Strings are byte strings, as in Go.
\<close>

definition lower_alnum :: "char \<Rightarrow> bool" where
  "lower_alnum c = (c \<in> set ''abcdefghijklmnopqrstuvwxyz0123456789'')"

definition alnum :: "char \<Rightarrow> bool" where
  "alnum c =
     (c \<in> set ''abcdefghijklmnopqrstuvwxyzABCDEFGHIJKLMNOPQRSTUVWXYZ0123456789'')"

definition word_char :: "char \<Rightarrow> bool" where
  "word_char c = (alnum c \<or> c = CHR ''_'')"

definition digit :: "char \<Rightarrow> bool" where
  "digit c = (c \<in> set ''0123456789'')"

definition lower_hex :: "char \<Rightarrow> bool" where
  "lower_hex c = (c \<in> set ''abcdef0123456789'')"

text \<open>\<^verbatim>\<open>strings.ToLower\<close>, on the letters of ASCII.\<close>

definition ToLower :: "char \<Rightarrow> char" where
  "ToLower c =
     (case map_of (zip ''ABCDEFGHIJKLMNOPQRSTUVWXYZ'' ''abcdefghijklmnopqrstuvwxyz'') c of
        None \<Rightarrow> c
      | Some l \<Rightarrow> l)"

text \<open>\<^verbatim>\<open>strings.Split\<close> at a one-byte separator.\<close>

fun split_on :: "char \<Rightarrow> string \<Rightarrow> string list" where
  "split_on sep [] = [[]]"
| "split_on sep (c # cs) =
     (if c = sep then [] # split_on sep cs
      else (case split_on sep cs of [] \<Rightarrow> [[c]] | w # ws \<Rightarrow> (c # w) # ws))"

text \<open>The part of a string before the first \<open>sep\<close>, and the part after it.\<close>

definition before :: "char \<Rightarrow> string \<Rightarrow> string" where
  "before sep s = takeWhile (\<lambda>c. c \<noteq> sep) s"

definition after :: "char \<Rightarrow> string \<Rightarrow> string" where
  "after sep s = tl (dropWhile (\<lambda>c. c \<noteq> sep) s)"

definition separator :: "string \<Rightarrow> bool" where
  "separator x =
     (x = ''.'' \<or> x = ''_'' \<or> x = ''__'' \<or> (x \<noteq> [] \<and> list_all (\<lambda>c. c = CHR ''-'') x))"

text \<open>
  A path component, read after its first character: \<open>sep\<close> is the run of characters
  other than lower-case letters and digits read since the last of those.
\<close>

fun nameComponent_rest :: "string \<Rightarrow> string \<Rightarrow> bool" where
  "nameComponent_rest sep [] = (sep = [])"
| "nameComponent_rest sep (c # cs) =
     (if lower_alnum c then (sep = [] \<or> separator sep) \<and> nameComponent_rest [] cs
      else nameComponent_rest (sep @ [c]) cs)"

definition nameComponent :: "string \<Rightarrow> bool" where
  "nameComponent s =
     (case s of [] \<Rightarrow> False | c # cs \<Rightarrow> lower_alnum c \<and> nameComponent_rest [] cs)"

definition pathMatch :: "string \<Rightarrow> bool" where
  "pathMatch p = list_all nameComponent (split_on CHR ''/'' p)"

definition domainComponent :: "string \<Rightarrow> bool" where
  "domainComponent s =
     (s \<noteq> [] \<and> alnum (hd s) \<and> alnum (last s) \<and> list_all (\<lambda>c. alnum c \<or> c = CHR ''-'') s)"

definition domainMatch :: "string \<Rightarrow> bool" where
  "domainMatch d =
     (list_all domainComponent (split_on CHR ''.'' (before CHR '':'' d)) \<and>
      (CHR '':'' \<in> set d \<longrightarrow> after CHR '':'' d \<noteq> [] \<and> list_all digit (after CHR '':'' d)))"

definition tagMatch :: "string \<Rightarrow> bool" where
  "tagMatch t =
     (t \<noteq> [] \<and> length t \<le> 128 \<and> word_char (hd t) \<and>
      list_all (\<lambda>c. word_char c \<or> c = CHR ''.'' \<or> c = CHR ''-'') (tl t))"

text \<open>
  Modelled from the spec: the validation of a digest, by the library. A digest is
  accepted when its algorithm is one of the three registered ones and its hexadecimal
  part is in lower case and has the length of the algorithm.
\<close>

definition digestValid :: "string \<Rightarrow> bool" where
  "digestValid d =
     (CHR '':'' \<in> set d \<and> list_all lower_hex (after CHR '':'' d) \<and>
      ((before CHR '':'' d = ''sha256'' \<and> length (after CHR '':'' d) = 64) \<or>
       (before CHR '':'' d = ''sha384'' \<and> length (after CHR '':'' d) = 96) \<or>
       (before CHR '':'' d = ''sha512'' \<and> length (after CHR '':'' d) = 128)))"

text \<open>
  Modelled from the spec: the \<^verbatim>\<open>reference\<close> structure of the library. An absent
  domain, tag or digest is the empty string, as in the library.
\<close>

record reference =
  RefDomain :: string
  RefPath :: string
  RefTag :: string
  RefDigest :: string

text \<open>
  Modelled from the spec: the split of a name by the library. The name is split into
  a domain and a path; when the text before the first slash is not a domain, the
  whole name is a path, if it is one.
\<close>

definition splitName :: "string \<Rightarrow> (string \<times> string) option" where
  "splitName name =
     (if CHR ''/'' \<in> set name \<and> domainMatch (before CHR ''/'' name) \<and>
         pathMatch (after CHR ''/'' name)
      then Some (before CHR ''/'' name, after CHR ''/'' name)
      else if pathMatch name then Some ([], name)
      else None)"

text \<open>
  Modelled from the spec: \<^verbatim>\<open>reference.Parse\<close>. The digest is what follows the \<open>@\<close>. A tag has neither a
  colon nor a slash, so the text before the \<open>@\<close> has a tag exactly when no slash
  follows its last colon, and the tag is what follows that colon. A name is at most
  255 bytes long.
\<close>

definition Parse :: "string \<Rightarrow> reference option" where
  "Parse s =
     (let front = before CHR ''@'' s;
          dgst = (if CHR ''@'' \<in> set s then after CHR ''@'' s else []);
          t = rev (before CHR '':'' (rev front));
          tagged = (CHR '':'' \<in> set front \<and> CHR ''/'' \<notin> set t);
          name = (if tagged then take (length front - length t - 1) front else front);
          tag = (if tagged then t else [])
      in if CHR ''@'' \<in> set s \<and> \<not> digestValid dgst then None
         else if tagged \<and> \<not> tagMatch tag then None
         else if 255 < length name then None
         else (case splitName name of
                 None \<Rightarrow> None
               | Some (domain, path) \<Rightarrow>
                   Some \<lparr>RefDomain = domain, RefPath = path, RefTag = tag,
                         RefDigest = dgst\<rparr>))"

definition defaultDomain :: string where
  "defaultDomain = ''docker.io''"

definition legacyDefaultDomain :: string where
  "legacyDefaultDomain = ''index.docker.io''"

definition officialRepoName :: string where
  "officialRepoName = ''library''"

definition defaultTag :: string where
  "defaultTag = ''latest''"

text \<open>
  Modelled from the spec: the default registry domain and repository path rules of
  the library (\<^verbatim>\<open>splitDockerDomain\<close>): the text before the first
  slash is a domain when it has a dot or a colon or is \<^verbatim>\<open>localhost\<close>; otherwise the
  domain is the default one, under which a name of one component is in \<^verbatim>\<open>library\<close>.
\<close>

definition splitDockerDomain :: "string \<Rightarrow> string \<times> string" where
  "splitDockerDomain name =
     (let (domain, remainder) =
            (if CHR ''/'' \<notin> set name \<or>
                (CHR ''.'' \<notin> set (before CHR ''/'' name) \<and>
                 CHR '':'' \<notin> set (before CHR ''/'' name) \<and>
                 before CHR ''/'' name \<noteq> ''localhost'')
             then (defaultDomain, name)
             else (before CHR ''/'' name, after CHR ''/'' name));
          domain' = (if domain = legacyDefaultDomain then defaultDomain else domain);
          remainder' =
            (if domain' = defaultDomain \<and> CHR ''/'' \<notin> set remainder
             then officialRepoName @ ''/'' @ remainder else remainder)
      in (domain', remainder'))"

text \<open>
  Modelled from the spec: \<^verbatim>\<open>reference.ParseNormalizedNamed\<close>: a string of 64 lower-case hexadecimal digits is
  an image identifier and no name; the repository name is in lower case.
\<close>

definition ParseNormalizedNamed :: "string \<Rightarrow> reference option" where
  "ParseNormalizedNamed s =
     (if length s = 64 \<and> list_all lower_hex s then None
      else
        (case splitDockerDomain s of
           (domain, remainder) \<Rightarrow>
             if map ToLower (before CHR '':'' remainder) \<noteq> before CHR '':'' remainder
             then None
             else Parse (domain @ ''/'' @ remainder)))"

text \<open>
  Modelled from the spec: \<^verbatim>\<open>reference.TagNameOnly\<close> adds the default tag to a reference that has a name
  only: neither a tag nor a digest.
\<close>

definition TagNameOnly :: "reference \<Rightarrow> reference" where
  "TagNameOnly ref =
     (if RefTag ref = [] \<and> RefDigest ref = [] then ref\<lparr>RefTag := defaultTag\<rparr> else ref)"

text \<open>
  Modelled from the spec: the methods \<^verbatim>\<open>Name\<close> and \<^verbatim>\<open>String\<close> of a reference and
  \<^verbatim>\<open>reference.Domain\<close>. The string of a reference is its name, then its tag after a
  colon if it has one, then its digest after an \<open>@\<close> if it has one.
\<close>

definition reference_Name :: "reference \<Rightarrow> string" where
  "reference_Name ref =
     (if RefDomain ref = [] then RefPath ref else RefDomain ref @ ''/'' @ RefPath ref)"

definition reference_String :: "reference \<Rightarrow> string" where
  "reference_String ref =
     reference_Name ref @
     (if RefTag ref = [] then [] else '':'' @ RefTag ref) @
     (if RefDigest ref = [] then [] else ''@'' @ RefDigest ref)"

definition reference_Domain :: "reference \<Rightarrow> string" where
  "reference_Domain ref = RefDomain ref"

text \<open>\<^verbatim>\<open>strings.HasSuffix\<close>.\<close>

definition HasSuffix :: "string \<Rightarrow> string \<Rightarrow> bool" where
  "HasSuffix s suf = (length suf \<le> length s \<and> drop (length s - length suf) s = suf)"

text \<open>
  \<^verbatim>\<open>parseImage\<close> (lines 225 to 243) returns the canonical name, the domain and
  whether the canonical name ends in \<^verbatim>\<open>:latest\<close>, or the error of the parser.
\<close>

definition parseImage :: "string \<Rightarrow> error + (string \<times> string \<times> bool)" where
  "parseImage s =
     (case ParseNormalizedNamed s of
        None \<Rightarrow> Inl InvalidReference
      | Some named \<Rightarrow>
          (let named' = TagNameOnly named
           in Inr (reference_String named', reference_Domain named',
                   HasSuffix (reference_String named') '':latest'')))"

text \<open>
  The characters of the grammar of references: letters, digits, and the delimiters
  and separators of names, tags and digests.
\<close>

definition reference_char :: "char \<Rightarrow> bool" where
  "reference_char c = (alnum c \<or> c \<in> set ''._-/:@+'')"

section \<open>The Docker client\<close>

text \<open>
  \<^verbatim>\<open>docker.APIClient\<close> is an interface to a remote service. It is a record of
  operations over a state \<open>'w\<close> of the runtime, about which nothing is assumed: each
  operation takes the arguments the engine passes, and the state, and returns its
  reply and the next state. Where the engine drops a part of the reply (the body of
  a created container, volume or network, the progress stream of a pull) the
  operation returns the error alone. The configurations of a container are built
  from the specification and the step by \<^verbatim>\<open>toConfig\<close>, \<^verbatim>\<open>toHostConfig\<close> and
  \<^verbatim>\<open>toNetConfig\<close>, which are not part of the source file: the creation of a
  container takes the specification and the step themselves.
\<close>

text \<open>
  Modelled from the spec: \<^verbatim>\<open>createTarfile\<close> is not part of the source file. The spec
  gives the archive as determined by the payload and the metadata of its destination:
  an archive is identified by the payload and the mount it was built from.
\<close>

datatype tarfile = Tarfile File FileMount

definition createTarfile :: "File \<Rightarrow> FileMount \<Rightarrow> tarfile" where
  "createTarfile file mount = Tarfile file mount"

text \<open>
  Modelled from the spec: \<^verbatim>\<open>authutil.Encode\<close> is not part of the source file. The
  spec gives it as the encoding of an authorization entry into the credentials of a
  pull request: the credentials are identified by the user name and password encoded.
\<close>

datatype registry_auth = EncodedAuth string string

definition Encode :: "string \<Rightarrow> string \<Rightarrow> registry_auth" where
  "Encode username password = EncodedAuth username password"

record ContainerInfo =
  InfoRunning :: bool
  InfoExitCode :: int
  InfoOOMKilled :: bool

text \<open>
  \<^verbatim>\<open>ContainerWait\<close> returns two channels. The reply says which of them delivers
  first: the status channel, the error channel, or neither of them ever.
\<close>

datatype wait_reply = WaitStatus int | WaitError error | WaitBlocked

record 'w client =
  VolumeCreate :: "string \<Rightarrow> string \<Rightarrow> labels \<Rightarrow> 'w \<Rightarrow> error option \<times> 'w"
  NetworkCreate :: "string \<Rightarrow> string \<Rightarrow> labels \<Rightarrow> 'w \<Rightarrow> error option \<times> 'w"
  ImagePull :: "string \<Rightarrow> registry_auth option \<Rightarrow> 'w \<Rightarrow> error option \<times> 'w"
  ContainerCreate :: "Spec \<Rightarrow> Step \<Rightarrow> string \<Rightarrow> 'w \<Rightarrow> error option \<times> 'w"
  CopyToContainer :: "string \<Rightarrow> string \<Rightarrow> tarfile \<Rightarrow> bool \<Rightarrow> 'w \<Rightarrow> error option \<times> 'w"
  ContainerStart :: "string \<Rightarrow> 'w \<Rightarrow> error option \<times> 'w"
  ContainerWait :: "string \<Rightarrow> string \<Rightarrow> 'w \<Rightarrow> wait_reply \<times> 'w"
  ContainerInspect :: "string \<Rightarrow> 'w \<Rightarrow> (error + ContainerInfo) \<times> 'w"
  ContainerLogs :: "string \<Rightarrow> 'w \<Rightarrow> (error + string) \<times> 'w"
  ContainerKill :: "string \<Rightarrow> string \<Rightarrow> 'w \<Rightarrow> error option \<times> 'w"
  ContainerRemove :: "string \<Rightarrow> bool \<Rightarrow> bool \<Rightarrow> bool \<Rightarrow> 'w \<Rightarrow> error option \<times> 'w"
  VolumeRemove :: "string \<Rightarrow> bool \<Rightarrow> 'w \<Rightarrow> error option \<times> 'w"
  NetworkRemove :: "string \<Rightarrow> 'w \<Rightarrow> error option \<times> 'w"

text \<open>
  Every call of the client is recorded, with the error it returned, in a trace that
  is threaded with the state of the runtime. The properties about which calls the engine
  makes, and in which order, are statements about this trace.
\<close>

datatype call =
    VolumeCreateCall string string labels
  | NetworkCreateCall string string labels
  | ImagePullCall string "registry_auth option"
  | ContainerCreateCall string
  | CopyToContainerCall string string tarfile bool
  | ContainerStartCall string
  | ContainerWaitCall string string
  | ContainerInspectCall string
  | ContainerLogsCall string
  | ContainerKillCall string string
  | ContainerRemoveCall string bool bool bool
  | VolumeRemoveCall string bool
  | NetworkRemoveCall string

type_synonym event = "call \<times> error option"

type_synonym 'w runtime = "'w \<times> event list"

definition invoke ::
  "call \<Rightarrow> ('w \<Rightarrow> error option \<times> 'w) \<Rightarrow> 'w runtime \<Rightarrow> error option \<times> 'w runtime" where
  "invoke cl op s =
     (case op (fst s) of (err, w') \<Rightarrow> (err, (w', snd s @ [(cl, err)])))"

section \<open>Setup\<close>

text \<open>The loop over \<^verbatim>\<open>e.spec.Docker.Volumes\<close> (lines 30 to 43).\<close>

fun Setup_volumes ::
  "'w client \<Rightarrow> Spec \<Rightarrow> Volume list \<Rightarrow> 'w runtime \<Rightarrow> error option \<times> 'w runtime" where
  "Setup_volumes c spec [] s = (None, s)"
| "Setup_volumes c spec (vol # vols) s =
     (if EmptyDir vol = None then Setup_volumes c spec vols s
      else
        (case invoke
                (VolumeCreateCall (UID (VolumeMetadata vol)) ''local''
                   (Labels (SpecMetadata spec)))
                (VolumeCreate c (UID (VolumeMetadata vol)) ''local''
                   (Labels (SpecMetadata spec))) s of
           (Some err, s') \<Rightarrow> (Some err, s')
         | (None, s') \<Rightarrow> Setup_volumes c spec vols s'))"

definition Setup :: "'w client \<Rightarrow> Spec \<Rightarrow> 'w runtime \<Rightarrow> error option \<times> 'w runtime" where
  "Setup c spec s =
     (case (case Docker spec of
              None \<Rightarrow> (None, s)
            | Some cfg \<Rightarrow> Setup_volumes c spec (Volumes cfg) s) of
        (Some err, s') \<Rightarrow> (Some err, s')
      | (None, s') \<Rightarrow>
          invoke
            (NetworkCreateCall (UID (SpecMetadata spec)) ''bridge''
               (Labels (SpecMetadata spec)))
            (NetworkCreate c (UID (SpecMetadata spec)) ''bridge''
               (Labels (SpecMetadata spec))) s')"

section \<open>Destroy\<close>

text \<open>The loop over \<^verbatim>\<open>e.spec.Steps\<close> (lines 200 to 203): both errors are dropped.\<close>

fun Destroy_containers :: "'w client \<Rightarrow> Step list \<Rightarrow> 'w runtime \<Rightarrow> 'w runtime" where
  "Destroy_containers c [] s = s"
| "Destroy_containers c (step # steps) s =
     (case invoke (ContainerKillCall (UID (StepMetadata step)) ''9'')
             (ContainerKill c (UID (StepMetadata step)) ''9'') s of
        (_, s1) \<Rightarrow>
          (case invoke (ContainerRemoveCall (UID (StepMetadata step)) True False True)
                  (ContainerRemove c (UID (StepMetadata step)) True False True) s1 of
             (_, s2) \<Rightarrow> Destroy_containers c steps s2))"

text \<open>The loop over \<^verbatim>\<open>e.spec.Docker.Volumes\<close> (lines 207 to 215).\<close>

fun Destroy_volumes ::
  "'w client \<Rightarrow> Volume list \<Rightarrow> 'w runtime \<Rightarrow> error option \<times> 'w runtime" where
  "Destroy_volumes c [] s = (None, s)"
| "Destroy_volumes c (vol # vols) s =
     (if EmptyDir vol = None then Destroy_volumes c vols s
      else
        (case invoke (VolumeRemoveCall (UID (VolumeMetadata vol)) True)
                (VolumeRemove c (UID (VolumeMetadata vol)) True) s of
           (Some err, s') \<Rightarrow> (Some err, s')
         | (None, s') \<Rightarrow> Destroy_volumes c vols s'))"

definition Destroy :: "'w client \<Rightarrow> Spec \<Rightarrow> 'w runtime \<Rightarrow> error option \<times> 'w runtime" where
  "Destroy c spec s =
     (case (case Docker spec of
              None \<Rightarrow> (None, Destroy_containers c (Steps spec) s)
            | Some cfg \<Rightarrow>
                Destroy_volumes c (Volumes cfg) (Destroy_containers c (Steps spec) s)) of
        (Some err, s') \<Rightarrow> (Some err, s')
      | (None, s') \<Rightarrow>
          invoke (NetworkRemoveCall (UID (SpecMetadata spec)))
            (NetworkRemove c (UID (SpecMetadata spec))) s')"


section \<open>Create\<close>

text \<open>The pull before the creation (lines 78 to 90).\<close>

definition Create_pull ::
  "'w client \<Rightarrow> DockerStep \<Rightarrow> bool \<Rightarrow> registry_auth option \<Rightarrow> 'w runtime \<Rightarrow>
     error option \<times> 'w runtime" where
  "Create_pull c cfg latest pullopts s =
     (if PullPolicy cfg = PullAlways \<or> (PullPolicy cfg = PullDefault \<and> latest)
      then invoke (ImagePullCall (Image cfg) pullopts) (ImagePull c (Image cfg) pullopts) s
      else (None, s))"

text \<open>
  The creation of the container, with the pull and the second creation when the
  image is not found (lines 92 to 120). The error returned is the one with which
  \<^verbatim>\<open>Create\<close> returns at line 104 or at line 119, if it does.
\<close>

definition Create_container ::
  "'w client \<Rightarrow> Spec \<Rightarrow> Step \<Rightarrow> DockerStep \<Rightarrow> registry_auth option \<Rightarrow> 'w runtime \<Rightarrow>
     error option \<times> 'w runtime" where
  "Create_container c spec step cfg pullopts s =
     (case invoke (ContainerCreateCall (UID (StepMetadata step)))
             (ContainerCreate c spec step (UID (StepMetadata step))) s of
        (err, s1) \<Rightarrow>
          if IsErrImageNotFound err \<and> PullPolicy cfg \<noteq> PullNever
          then
            (case invoke (ImagePullCall (Image cfg) pullopts)
                    (ImagePull c (Image cfg) pullopts) s1 of
               (Some perr, s2) \<Rightarrow> (Some perr, s2)
             | (None, s2) \<Rightarrow>
                 invoke (ContainerCreateCall (UID (StepMetadata step)))
                   (ContainerCreate c spec step (UID (StepMetadata step))) s2)
          else (err, s1))"

text \<open>The loop over \<^verbatim>\<open>step.Files\<close> (lines 124 to 136).\<close>

fun Create_files ::
  "'w client \<Rightarrow> Spec \<Rightarrow> Step \<Rightarrow> FileMount list \<Rightarrow> 'w runtime \<Rightarrow>
     error option \<times> 'w runtime" where
  "Create_files c spec step [] s = (None, s)"
| "Create_files c spec step (mount # mounts) s =
     (case LookupFile spec (MountName mount) of
        None \<Rightarrow> Create_files c spec step mounts s
      | Some file \<Rightarrow>
          (case invoke
                  (CopyToContainerCall (UID (StepMetadata step)) ''/''
                     (createTarfile file mount) False)
                  (CopyToContainer c (UID (StepMetadata step)) ''/''
                     (createTarfile file mount) False) s of
             (Some err, s') \<Rightarrow> (Some err, s')
           | (None, s') \<Rightarrow> Create_files c spec step mounts s'))"

text \<open>The pull options, with the credentials of the domain if there are any (lines 70 to 74).\<close>

definition Create_pullopts :: "Spec \<Rightarrow> string \<Rightarrow> registry_auth option" where
  "Create_pullopts spec domain =
     (case LookupAuth spec domain of
        None \<Rightarrow> None
      | Some auth \<Rightarrow> Some (Encode (Username auth) (Password auth)))"

definition Create ::
  "'w client \<Rightarrow> Spec \<Rightarrow> Step \<Rightarrow> 'w runtime \<Rightarrow> error option \<times> 'w runtime" where
  "Create c spec step s =
     (case StepDocker step of
        None \<Rightarrow> (Some (EngineError ''engine: missing docker configuration''), s)
      | Some cfg \<Rightarrow>
          (case parseImage (Image cfg) of
             Inl err \<Rightarrow> (Some err, s)
           | Inr (canonical, domain, latest) \<Rightarrow>
               (case Create_pull c cfg latest (Create_pullopts spec domain) s of
                  (Some perr, s1) \<Rightarrow> (Some perr, s1)
                | (None, s1) \<Rightarrow>
                    (case Create_container c spec step cfg (Create_pullopts spec domain) s1 of
                       (Some err, s2) \<Rightarrow> (Some err, s2)
                     | (None, s2) \<Rightarrow> Create_files c spec step (StepFiles step) s2))))"

section \<open>Start, Wait and Tail\<close>

definition Start :: "'w client \<Rightarrow> Step \<Rightarrow> 'w runtime \<Rightarrow> error option \<times> 'w runtime" where
  "Start c step s =
     invoke (ContainerStartCall (UID (StepMetadata step)))
       (ContainerStart c (UID (StepMetadata step))) s"

text \<open>
  \<^verbatim>\<open>Wait\<close> blocks in its \<^verbatim>\<open>select\<close> until one of the two channels delivers. The
  result is \<open>None\<close> when neither ever does: \<^verbatim>\<open>Wait\<close> does not return. What the
  channel delivers is dropped. The trace records an error delivered by the error
  channel as the error of the call.
\<close>

definition Wait ::
  "'w client \<Rightarrow> Step \<Rightarrow> 'w runtime \<Rightarrow> ((error + State) \<times> 'w runtime) option" where
  "Wait c step s =
     (case ContainerWait c (UID (StepMetadata step)) [] (fst s) of
        (WaitBlocked, w1) \<Rightarrow> None
      | (reply, w1) \<Rightarrow>
          (let waited =
                 (ContainerWaitCall (UID (StepMetadata step)) [],
                  case reply of WaitError err \<Rightarrow> Some err | _ \<Rightarrow> None)
           in case ContainerInspect c (UID (StepMetadata step)) w1 of
                (Inl err, w2) \<Rightarrow>
                  Some (Inl err,
                        (w2, snd s @ [waited,
                           (ContainerInspectCall (UID (StepMetadata step)), Some err)]))
              | (Inr info, w2) \<Rightarrow>
                  Some (Inr \<lparr>ExitCode = InfoExitCode info, Exited = True,
                             OOMKilled = InfoOOMKilled info\<rparr>,
                        (w2, snd s @ [waited,
                           (ContainerInspectCall (UID (StepMetadata step)), None)]))))"

text \<open>
  \<^verbatim>\<open>Tail\<close> returns the reading end of a pipe into which a goroutine copies the log
  stream through \<^verbatim>\<open>stdcopy.StdCopy\<close>. That function is not part of the source file:
  it is the parameter \<open>demux\<close>, and the result is what the pipe carries in the end.
\<close>

definition Tail ::
  "(string \<Rightarrow> string) \<Rightarrow> 'w client \<Rightarrow> Step \<Rightarrow> 'w runtime \<Rightarrow>
     (error + string) \<times> 'w runtime" where
  "Tail demux c step s =
     (case ContainerLogs c (UID (StepMetadata step)) (fst s) of
        (Inl err, w') \<Rightarrow>
          (Inl err, (w', snd s @ [(ContainerLogsCall (UID (StepMetadata step)), Some err)]))
      | (Inr logs, w') \<Rightarrow>
          (Inr (demux logs),
           (w', snd s @ [(ContainerLogsCall (UID (StepMetadata step)), None)])))"

section \<open>A scripted client\<close>

text \<open>
  A client for running the engine on concrete inputs: its state is a script, the
  list of the errors that its next calls return, and a call after the end of the
  script succeeds. An inspection that succeeds reports \<open>info\<close>, a wait that succeeds
  delivers a status, and one that fails delivers the error.
\<close>

definition reply :: "error option list \<Rightarrow> error option \<times> error option list" where
  "reply script = (case script of [] \<Rightarrow> (None, []) | r # rs \<Rightarrow> (r, rs))"

definition scripted :: "ContainerInfo \<Rightarrow> (error option list) client" where
  "scripted info =
     \<lparr>VolumeCreate = (\<lambda>name driver lbls. reply),
      NetworkCreate = (\<lambda>name driver lbls. reply),
      ImagePull = (\<lambda>img auth. reply),
      ContainerCreate = (\<lambda>spec step name. reply),
      CopyToContainer = (\<lambda>name path content overwrite. reply),
      ContainerStart = (\<lambda>name. reply),
      ContainerWait = (\<lambda>name condition script.
        case reply script of
          (None, rest) \<Rightarrow> (WaitStatus (InfoExitCode info), rest)
        | (Some err, rest) \<Rightarrow> (WaitError err, rest)),
      ContainerInspect = (\<lambda>name script.
        case reply script of
          (None, rest) \<Rightarrow> (Inr info, rest)
        | (Some err, rest) \<Rightarrow> (Inl err, rest)),
      ContainerLogs = (\<lambda>name script.
        case reply script of
          (None, rest) \<Rightarrow> (Inr [], rest)
        | (Some err, rest) \<Rightarrow> (Inl err, rest)),
      ContainerKill = (\<lambda>name signal. reply),
      ContainerRemove = (\<lambda>name force links volumes. reply),
      VolumeRemove = (\<lambda>name force. reply),
      NetworkRemove = (\<lambda>name. reply)\<rparr>"

definition meta :: "string \<Rightarrow> metadata" where
  "meta uid = \<lparr>UID = uid, Name = uid, Labels = []\<rparr>"

definition ephemeral :: "string \<Rightarrow> Volume" where
  "ephemeral uid = \<lparr>VolumeMetadata = meta uid, EmptyDir = Some (), HostPath = None\<rparr>"

definition hostpath :: "string \<Rightarrow> Volume" where
  "hostpath uid = \<lparr>VolumeMetadata = meta uid, EmptyDir = None, HostPath = Some ''/tmp''\<rparr>"

definition netrc_file :: File where
  "netrc_file = \<lparr>FileMetadata = meta ''netrc'', FileData = ''machine''\<rparr>"

definition key_file :: File where
  "key_file = \<lparr>FileMetadata = meta ''key'', FileData = ''secret''\<rparr>"

definition missing_mount :: FileMount where
  "missing_mount = \<lparr>MountName = ''missing'', MountPath = ''/m'', MountMode = 420\<rparr>"

definition netrc_mount :: FileMount where
  "netrc_mount = \<lparr>MountName = ''netrc'', MountPath = ''/root/.netrc'', MountMode = 384\<rparr>"

definition key_mount :: FileMount where
  "key_mount = \<lparr>MountName = ''key'', MountPath = ''/root/key'', MountMode = 384\<rparr>"

definition build_step :: Step where
  "build_step =
     \<lparr>StepMetadata = meta ''s1'',
      StepDocker = Some \<lparr>Image = ''alpine'', PullPolicy = PullIfNotExists\<rparr>,
      StepFiles = [missing_mount, netrc_mount, key_mount]\<rparr>"

definition demo_spec :: Spec where
  "demo_spec =
     \<lparr>SpecMetadata = meta ''run'',
      Steps = [build_step],
      Files = [netrc_file, key_file],
      Docker = Some \<lparr>Auths = [], Volumes = [ephemeral ''v1'', hostpath ''h'', ephemeral ''v2'']\<rparr>\<rparr>"

definition exited_info :: ContainerInfo where
  "exited_info = \<lparr>InfoRunning = False, InfoExitCode = 3, InfoOOMKilled = False\<rparr>"

definition running_info :: ContainerInfo where
  "running_info = \<lparr>InfoRunning = True, InfoExitCode = 0, InfoOOMKilled = True\<rparr>"

section \<open>Traces of fallible calls\<close>

text \<open>
  A sequence of planned calls is run fail-fast when the calls made are an initial
  segment of the planned ones in their order, every call made but the last one
  succeeded, and then: with no error as the result, every planned call was made and
  succeeded; with an error as the result, that error is the error of the last call
  made.
\<close>

definition succeeded :: "event \<Rightarrow> bool" where
  "succeeded ev = (snd ev = None)"

definition fail_fast :: "call list \<Rightarrow> event list \<Rightarrow> error option \<Rightarrow> bool" where
  "fail_fast planned evs result =
     (prefix (map fst evs) planned \<and>
      list_all succeeded (butlast evs) \<and>
      (case result of
         None \<Rightarrow> map fst evs = planned \<and> list_all succeeded evs
       | Some err \<Rightarrow> evs \<noteq> [] \<and> snd (last evs) = Some err))"

text \<open>The volumes that a specification declares, and the ephemeral ones among them.\<close>

definition declared_volumes :: "Spec \<Rightarrow> Volume list" where
  "declared_volumes spec = (case Docker spec of None \<Rightarrow> [] | Some cfg \<Rightarrow> Volumes cfg)"

definition ephemeral_volumes :: "Spec \<Rightarrow> Volume list" where
  "ephemeral_volumes spec = filter (\<lambda>vol. EmptyDir vol \<noteq> None) (declared_volumes spec)"

text \<open>The calls that \<^verbatim>\<open>Setup\<close> makes when none of them fails.\<close>

definition volume_create :: "Spec \<Rightarrow> Volume \<Rightarrow> call" where
  "volume_create spec vol =
     VolumeCreateCall (UID (VolumeMetadata vol)) ''local'' (Labels (SpecMetadata spec))"

definition network_create :: "Spec \<Rightarrow> call" where
  "network_create spec =
     NetworkCreateCall (UID (SpecMetadata spec)) ''bridge'' (Labels (SpecMetadata spec))"

definition Setup_calls :: "Spec \<Rightarrow> call list" where
  "Setup_calls spec =
     map (volume_create spec) (ephemeral_volumes spec) @ [network_create spec]"

text \<open>The calls that \<^verbatim>\<open>Destroy\<close> makes when no removal of a volume fails.\<close>

definition container_cleanup :: "Step \<Rightarrow> call list" where
  "container_cleanup step =
     [ContainerKillCall (UID (StepMetadata step)) ''9'',
      ContainerRemoveCall (UID (StepMetadata step)) True False True]"

definition volume_remove :: "Volume \<Rightarrow> call" where
  "volume_remove vol = VolumeRemoveCall (UID (VolumeMetadata vol)) True"

definition network_remove :: "Spec \<Rightarrow> call" where
  "network_remove spec = NetworkRemoveCall (UID (SpecMetadata spec))"

definition Destroy_calls :: "Spec \<Rightarrow> call list" where
  "Destroy_calls spec = map volume_remove (ephemeral_volumes spec) @ [network_remove spec]"

text \<open>The names of the volumes that the calls of a trace create or remove.\<close>

fun volume_target :: "call \<Rightarrow> string option" where
  "volume_target (VolumeCreateCall name driver lbls) = Some name"
| "volume_target (VolumeRemoveCall name force) = Some name"
| "volume_target cl = None"

definition volume_targets :: "event list \<Rightarrow> string set" where
  "volume_targets evs = set (List.map_filter (\<lambda>ev. volume_target (fst ev)) evs)"

text \<open>
  The copies that \<^verbatim>\<open>Create\<close> makes when none of them fails: one for each file
  mount, in order, whose payload the specification has.
\<close>

definition copy_calls :: "Spec \<Rightarrow> Step \<Rightarrow> FileMount list \<Rightarrow> call list" where
  "copy_calls spec step mounts =
     List.map_filter
       (\<lambda>mount. map_option
          (\<lambda>file. CopyToContainerCall (UID (StepMetadata step)) ''/''
                     (createTarfile file mount) False)
          (LookupFile spec (MountName mount)))
       mounts"

fun is_pull :: "call \<Rightarrow> bool" where
  "is_pull (ImagePullCall img auth) = True"
| "is_pull cl = False"

fun is_create :: "call \<Rightarrow> bool" where
  "is_create (ContainerCreateCall name) = True"
| "is_create cl = False"

fun is_copy :: "call \<Rightarrow> bool" where
  "is_copy (CopyToContainerCall name path content overwrite) = True"
| "is_copy cl = False"

definition default_cfg :: DockerStep where
  "default_cfg = \<lparr>Image = ''alpine'', PullPolicy = PullDefault\<rparr>"

definition default_step :: Step where
  "default_step = \<lparr>StepMetadata = meta ''s2'', StepDocker = Some default_cfg, StepFiles = []\<rparr>"

text \<open>
  The volumes that a trace creates or removes are managed by the specification when
  each of them has the name of a declared ephemeral volume, and, the names of the
  declared volumes being distinct, a declared volume that is not ephemeral is not
  among them.
\<close>

definition volume_name :: "Volume \<Rightarrow> string" where
  "volume_name vol = UID (VolumeMetadata vol)"

definition only_ephemeral :: "Spec \<Rightarrow> event list \<Rightarrow> bool" where
  "only_ephemeral spec evs =
     (volume_targets evs \<subseteq> set (map volume_name (ephemeral_volumes spec)) \<and>
      (distinct (map volume_name (declared_volumes spec)) \<longrightarrow>
         (\<forall>vol \<in> set (declared_volumes spec).
            EmptyDir vol = None \<longrightarrow> volume_name vol \<notin> volume_targets evs)))"

section \<open>The contract of removal\<close>

text \<open>
  The state of a runtime after one call of the kind that \<^verbatim>\<open>Destroy\<close> makes.
\<close>

definition cleanup_step :: "'w client \<Rightarrow> 'w \<Rightarrow> 'w \<Rightarrow> bool" where
  "cleanup_step c w w' =
     ((\<exists>name signal. w' = snd (ContainerKill c name signal w)) \<or>
      (\<exists>name force links volumes. w' = snd (ContainerRemove c name force links volumes w)) \<or>
      (\<exists>name force. w' = snd (VolumeRemove c name force w)) \<or>
      (\<exists>name. w' = snd (NetworkRemove c name w)))"

text \<open>
  A runtime whose states say which volumes and networks exist keeps the contract of
  removal when the forced removal of a volume, and the removal of a network, that
  does not exist succeeds; a removal that succeeds leaves what it removed not
  existing; and no call of the kind that \<^verbatim>\<open>Destroy\<close> makes brings a volume or a
  network into existence.
\<close>

definition removal_contract ::
  "'w client \<Rightarrow> ('w \<Rightarrow> string \<Rightarrow> bool) \<Rightarrow> ('w \<Rightarrow> string \<Rightarrow> bool) \<Rightarrow> bool" where
  "removal_contract c has_volume has_network =
     ((\<forall>name w. \<not> has_volume w name \<longrightarrow> fst (VolumeRemove c name True w) = None) \<and>
      (\<forall>name w. \<not> has_network w name \<longrightarrow> fst (NetworkRemove c name w) = None) \<and>
      (\<forall>name w. fst (VolumeRemove c name True w) = None \<longrightarrow>
         \<not> has_volume (snd (VolumeRemove c name True w)) name) \<and>
      (\<forall>name w. fst (NetworkRemove c name w) = None \<longrightarrow>
         \<not> has_network (snd (NetworkRemove c name w)) name) \<and>
      (\<forall>w w' name. cleanup_step c w w' \<longrightarrow>
         (has_volume w' name \<longrightarrow> has_volume w name) \<and>
         (has_network w' name \<longrightarrow> has_network w name)))"

text \<open>None of the volumes \<open>V\<close> and none of the networks \<open>N\<close> exists.\<close>

definition absent ::
  "('w \<Rightarrow> string \<Rightarrow> bool) \<Rightarrow> ('w \<Rightarrow> string \<Rightarrow> bool) \<Rightarrow> string set \<Rightarrow> string set \<Rightarrow> 'w \<Rightarrow> bool" where
  "absent has_volume has_network V N w =
     ((\<forall>name \<in> V. \<not> has_volume w name) \<and> (\<forall>name \<in> N. \<not> has_network w name))"

text \<open>
  A runtime that keeps the lists of the volumes and of the networks that exist. The
  removal of what does not exist succeeds; killing a container fails, no container
  being run.
\<close>

definition listed :: "(string list \<times> string list) client" where
  "listed =
     \<lparr>VolumeCreate = (\<lambda>name driver lbls w. (None, (name # fst w, snd w))),
      NetworkCreate = (\<lambda>name driver lbls w.
        if name \<in> set (snd w) then (Some (ClientError ''network exists''), w)
        else (None, (fst w, name # snd w))),
      ImagePull = (\<lambda>img auth w. (None, w)),
      ContainerCreate = (\<lambda>spec step name w. (None, w)),
      CopyToContainer = (\<lambda>name path content overwrite w. (None, w)),
      ContainerStart = (\<lambda>name w. (None, w)),
      ContainerWait = (\<lambda>name condition w. (WaitStatus 0, w)),
      ContainerInspect = (\<lambda>name w. (Inr exited_info, w)),
      ContainerLogs = (\<lambda>name w. (Inr [], w)),
      ContainerKill = (\<lambda>name signal w. (Some (ClientError ''not running''), w)),
      ContainerRemove = (\<lambda>name force links volumes w. (None, w)),
      VolumeRemove = (\<lambda>name force w.
        if name \<in> set (fst w) \<or> force then (None, (removeAll name (fst w), snd w))
        else (Some (ClientError ''no such volume''), w)),
      NetworkRemove = (\<lambda>name w. (None, (fst w, removeAll name (snd w))))\<rparr>"

text \<open>Two references: a name alone, and a name pinned by a digest.\<close>

definition alpine_ref :: reference where
  "alpine_ref =
     \<lparr>RefDomain = ''docker.io'', RefPath = ''library/alpine'', RefTag = [], RefDigest = []\<rparr>"

definition pinned :: string where
  "pinned = ''alpine@sha256:9a839e63dad54c3a6d1834e29692c8492d93f90c59c978c1ed79109ea4fb9a54''"

definition pinned_ref :: reference where
  "pinned_ref =
     \<lparr>RefDomain = ''docker.io'', RefPath = ''library/alpine'', RefTag = [],
      RefDigest = ''sha256:9a839e63dad54c3a6d1834e29692c8492d93f90c59c978c1ed79109ea4fb9a54''\<rparr>"

section \<open>Properties of traces\<close>

lemma invoke_eq:
  "invoke cl op (w, tr) = (r, (w', tr')) \<longleftrightarrow> op w = (r, w') \<and> tr' = tr @ [(cl, r)]"
  by (auto simp: invoke_def split: prod.splits)

lemma fail_fast_Nil: "fail_fast [] [] None"
  by (simp add: fail_fast_def)

lemma fail_fast_error: "fail_fast (cl # planned) [(cl, Some err)] (Some err)"
  by (simp add: fail_fast_def)

lemma fail_fast_Cons:
  "fail_fast planned evs result \<Longrightarrow> fail_fast (cl # planned) ((cl, None) # evs) result"
  by (cases evs) (auto simp: fail_fast_def succeeded_def split: option.splits)

lemma fail_fast_rest:
  "fail_fast planned evs (Some err) \<Longrightarrow> fail_fast (planned @ rest) evs (Some err)"
  by (auto simp: fail_fast_def)

lemma fail_fast_snoc:
  "fail_fast planned evs None \<Longrightarrow> fail_fast (planned @ [cl]) (evs @ [(cl, result)]) result"
  by (auto simp: fail_fast_def succeeded_def split: option.splits)

section \<open>Setup\<close>

lemma Setup_volumes_trace:
  "Setup_volumes c spec vols (w, tr) = (result, (w', tr')) \<Longrightarrow>
     \<exists>evs. tr' = tr @ evs \<and>
       fail_fast (map (volume_create spec) (filter (\<lambda>vol. EmptyDir vol \<noteq> None) vols)) evs result"
proof (induction vols arbitrary: w tr)
  case Nil
  then show ?case by (simp add: fail_fast_Nil)
next
  case (Cons vol vols)
  show ?case
  proof (cases "EmptyDir vol = None")
    case True
    with Cons show ?thesis by simp
  next
    case False
    obtain r w1 where op:
      "VolumeCreate c (UID (VolumeMetadata vol)) ''local'' (Labels (SpecMetadata spec)) w = (r, w1)"
      by (cases "VolumeCreate c (UID (VolumeMetadata vol)) ''local'' (Labels (SpecMetadata spec)) w")
    then have inv: "invoke (volume_create spec vol)
        (VolumeCreate c (UID (VolumeMetadata vol)) ''local'' (Labels (SpecMetadata spec))) (w, tr)
        = (r, (w1, tr @ [(volume_create spec vol, r)]))"
      by (simp add: invoke_eq)
    show ?thesis
    proof (cases r)
      case None
      with Cons.prems False inv
      have "Setup_volumes c spec vols (w1, tr @ [(volume_create spec vol, None)]) = (result, (w', tr'))"
        by (simp add: volume_create_def)
      from Cons.IH [OF this] obtain evs where
        "tr' = (tr @ [(volume_create spec vol, None)]) @ evs"
        "fail_fast (map (volume_create spec) (filter (\<lambda>vol. EmptyDir vol \<noteq> None) vols)) evs result"
        by blast
      then show ?thesis using False
        by (intro exI [of _ "(volume_create spec vol, None) # evs"]) (simp add: fail_fast_Cons)
    next
      case (Some err)
      with Cons.prems False inv
      have "result = Some err" "tr' = tr @ [(volume_create spec vol, Some err)]"
        by (auto simp: volume_create_def)
      then show ?thesis using False
        by (intro exI [of _ "[(volume_create spec vol, Some err)]"]) (simp add: fail_fast_error)
    qed
  qed
qed

lemma Setup_trace:
  assumes "Setup c spec (w, tr) = (result, (w', tr'))"
  shows "\<exists>evs. tr' = tr @ evs \<and> fail_fast (Setup_calls spec) evs result"
proof -
  obtain r1 w1 tr1 where vols:
    "(case Docker spec of None \<Rightarrow> (None, (w, tr))
      | Some cfg \<Rightarrow> Setup_volumes c spec (Volumes cfg) (w, tr)) = (r1, (w1, tr1))"
    by (metis prod.exhaust)
  have "\<exists>evs. tr1 = tr @ evs \<and>
     fail_fast (map (volume_create spec) (ephemeral_volumes spec)) evs r1"
  proof (cases "Docker spec")
    case None
    with vols show ?thesis
      by (simp add: ephemeral_volumes_def declared_volumes_def fail_fast_Nil)
  next
    case (Some cfg)
    with vols Setup_volumes_trace [of c spec "Volumes cfg" w tr r1 w1 tr1]
    show ?thesis by (simp add: ephemeral_volumes_def declared_volumes_def)
  qed
  then obtain evs where evs: "tr1 = tr @ evs"
    "fail_fast (map (volume_create spec) (ephemeral_volumes spec)) evs r1" by blast
  show ?thesis
  proof (cases r1)
    case None
    with assms vols have "invoke (network_create spec)
        (NetworkCreate c (UID (SpecMetadata spec)) ''bridge'' (Labels (SpecMetadata spec))) (w1, tr1)
        = (result, (w', tr'))"
      by (simp add: Setup_def network_create_def)
    then have "tr' = tr1 @ [(network_create spec, result)]" by (simp add: invoke_eq)
    with evs None show ?thesis
      by (intro exI [of _ "evs @ [(network_create spec, result)]"])
         (simp add: Setup_calls_def fail_fast_snoc)
  next
    case (Some err)
    with assms vols have "result = Some err" "tr' = tr1" by (auto simp: Setup_def)
    with evs Some show ?thesis
      by (intro exI [of _ evs]) (simp add: Setup_calls_def fail_fast_rest)
  qed
qed


lemma fail_fast_final:
  assumes "fail_fast (planned @ [cl]) evs result" "cl \<notin> set planned" "cl \<in> fst ` set evs"
  shows "map fst evs = planned @ [cl] \<and> last evs = (cl, result)"
proof -
  from assms(1) have "prefix (map fst evs) (planned @ [cl])" by (simp add: fail_fast_def)
  then have "map fst evs = planned @ [cl] \<or> prefix (map fst evs) planned"
    by (auto simp: prefix_snoc)
  moreover have "\<not> prefix (map fst evs) planned"
  proof
    assume "prefix (map fst evs) planned"
    then have "set (map fst evs) \<subseteq> set planned" by (rule set_mono_prefix)
    with assms(2,3) show False by auto
  qed
  ultimately have full: "map fst evs = planned @ [cl]" by blast
  then have ne: "evs \<noteq> []" by auto
  then have "fst (last evs) = cl" using full by (metis last_map last_snoc)
  moreover have "snd (last evs) = result"
    using assms(1) ne by (cases result) (auto simp: fail_fast_def succeeded_def list_all_iff)
  ultimately show ?thesis using full by (simp add: prod_eq_iff)
qed

text \<open>
  Claim C4. \<^verbatim>\<open>Setup\<close> creates a volume of the local driver for each declared
  ephemeral volume, in the order of declaration, and then the bridge network, and it
  does so fail-fast: the first call that fails is the last call made, and its error
  is the result, so that no later volume and no network is created after a volume
  creation that failed; no other call (no removal of a volume created earlier) is
  made; the network is created only as the last of all these calls, after every
  volume creation succeeded, and the result of \<^verbatim>\<open>Setup\<close> is then the result of the
  creation of the network.
\<close>

theorem Setup_fail_fast:
  assumes "Setup c spec (w, tr) = (result, (w', tr'))"
  shows "\<exists>evs. tr' = tr @ evs \<and> fail_fast (Setup_calls spec) evs result \<and>
           (network_create spec \<in> fst ` set evs \<longrightarrow>
              map fst evs = Setup_calls spec \<and> last evs = (network_create spec, result))"
proof -
  from Setup_trace [OF assms] obtain evs where
    evs: "tr' = tr @ evs" "fail_fast (Setup_calls spec) evs result" by blast
  have "network_create spec \<notin> set (map (volume_create spec) (ephemeral_volumes spec))"
    by (auto simp: network_create_def volume_create_def)
  with evs(2) have "network_create spec \<in> fst ` set evs \<longrightarrow>
      map fst evs = Setup_calls spec \<and> last evs = (network_create spec, result)"
    unfolding Setup_calls_def by (blast dest: fail_fast_final)
  with evs show ?thesis by blast
qed

theorem Setup_fail_fast_witness:
  "Setup (scripted exited_info) demo_spec ([None, Some (ClientError ''full'')], []) =
     (Some (ClientError ''full''), ([],
        [(VolumeCreateCall ''v1'' ''local'' [], None),
         (VolumeCreateCall ''v2'' ''local'' [], Some (ClientError ''full''))])) \<and>
   (\<exists>evs. [(VolumeCreateCall ''v1'' ''local'' [], None),
         (VolumeCreateCall ''v2'' ''local'' [], Some (ClientError ''full''))] = [] @ evs \<and>
      fail_fast (Setup_calls demo_spec) evs (Some (ClientError ''full'')) \<and>
      (network_create demo_spec \<in> fst ` set evs \<longrightarrow>
         map fst evs = Setup_calls demo_spec \<and>
         last evs = (network_create demo_spec, Some (ClientError ''full''))))"
proof -
  have run: "Setup (scripted exited_info) demo_spec ([None, Some (ClientError ''full'')], []) =
     (Some (ClientError ''full''), ([],
        [(VolumeCreateCall ''v1'' ''local'' [], None),
         (VolumeCreateCall ''v2'' ''local'' [], Some (ClientError ''full''))]))"
    by (simp add: Setup_def demo_spec_def ephemeral_def hostpath_def meta_def scripted_def
        reply_def invoke_def)
  from Setup_fail_fast [OF run] run show ?thesis by simp
qed

section \<open>Destroy\<close>


lemma Destroy_containers_trace:
  "Destroy_containers c steps (w, tr) = (w', tr') \<Longrightarrow>
     \<exists>evs. tr' = tr @ evs \<and> map fst evs = concat (map container_cleanup steps)"
proof (induction steps arbitrary: w tr)
  case Nil
  then show ?case by simp
next
  case (Cons step steps)
  obtain r1 w1 where k: "ContainerKill c (UID (StepMetadata step)) ''9'' w = (r1, w1)"
    by (cases "ContainerKill c (UID (StepMetadata step)) ''9'' w")
  obtain r2 w2 where r: "ContainerRemove c (UID (StepMetadata step)) True False True w1 = (r2, w2)"
    by (cases "ContainerRemove c (UID (StepMetadata step)) True False True w1")
  let ?evs = "[(ContainerKillCall (UID (StepMetadata step)) ''9'', r1),
               (ContainerRemoveCall (UID (StepMetadata step)) True False True, r2)]"
  from Cons.prems k r have "Destroy_containers c steps (w2, tr @ ?evs) = (w', tr')"
    by (simp add: invoke_def)
  from Cons.IH [OF this] obtain evs where
    "tr' = (tr @ ?evs) @ evs" "map fst evs = concat (map container_cleanup steps)" by blast
  moreover have "map fst ?evs = container_cleanup step"
    by (simp add: container_cleanup_def)
  ultimately show ?case
    by (intro exI [of _ "?evs @ evs"]) simp
qed

lemma Destroy_volumes_trace:
  "Destroy_volumes c vols (w, tr) = (result, (w', tr')) \<Longrightarrow>
     \<exists>evs. tr' = tr @ evs \<and>
       fail_fast (map volume_remove (filter (\<lambda>vol. EmptyDir vol \<noteq> None) vols)) evs result"
proof (induction vols arbitrary: w tr)
  case Nil
  then show ?case by (simp add: fail_fast_Nil)
next
  case (Cons vol vols)
  show ?case
  proof (cases "EmptyDir vol = None")
    case True
    with Cons show ?thesis by simp
  next
    case False
    obtain r w1 where op: "VolumeRemove c (UID (VolumeMetadata vol)) True w = (r, w1)"
      by (cases "VolumeRemove c (UID (VolumeMetadata vol)) True w")
    then have inv: "invoke (volume_remove vol)
        (VolumeRemove c (UID (VolumeMetadata vol)) True) (w, tr)
        = (r, (w1, tr @ [(volume_remove vol, r)]))"
      by (simp add: invoke_eq)
    show ?thesis
    proof (cases r)
      case None
      with Cons.prems False inv
      have "Destroy_volumes c vols (w1, tr @ [(volume_remove vol, None)]) = (result, (w', tr'))"
        by (simp add: volume_remove_def)
      from Cons.IH [OF this] obtain evs where
        "tr' = (tr @ [(volume_remove vol, None)]) @ evs"
        "fail_fast (map volume_remove (filter (\<lambda>vol. EmptyDir vol \<noteq> None) vols)) evs result"
        by blast
      then show ?thesis using False
        by (intro exI [of _ "(volume_remove vol, None) # evs"]) (simp add: fail_fast_Cons)
    next
      case (Some err)
      with Cons.prems False inv
      have "result = Some err" "tr' = tr @ [(volume_remove vol, Some err)]"
        by (auto simp: volume_remove_def)
      then show ?thesis using False
        by (intro exI [of _ "[(volume_remove vol, Some err)]"]) (simp add: fail_fast_error)
    qed
  qed
qed

lemma Destroy_trace:
  assumes "Destroy c spec (w, tr) = (result, (w', tr'))"
  shows "\<exists>cleanup evs. tr' = tr @ cleanup @ evs \<and>
           map fst cleanup = concat (map container_cleanup (Steps spec)) \<and>
           fail_fast (Destroy_calls spec) evs result"
proof -
  obtain w0 tr0 where ctr: "Destroy_containers c (Steps spec) (w, tr) = (w0, tr0)"
    by (cases "Destroy_containers c (Steps spec) (w, tr)")
  from Destroy_containers_trace [OF this] obtain cleanup where
    cleanup: "tr0 = tr @ cleanup" "map fst cleanup = concat (map container_cleanup (Steps spec))"
    by blast
  obtain r1 w1 tr1 where vols:
    "(case Docker spec of None \<Rightarrow> (None, (w0, tr0))
      | Some cfg \<Rightarrow> Destroy_volumes c (Volumes cfg) (w0, tr0)) = (r1, (w1, tr1))"
    by (metis prod.exhaust)
  have "\<exists>evs. tr1 = tr0 @ evs \<and> fail_fast (map volume_remove (ephemeral_volumes spec)) evs r1"
  proof (cases "Docker spec")
    case None
    with vols show ?thesis
      by (simp add: ephemeral_volumes_def declared_volumes_def fail_fast_Nil)
  next
    case (Some cfg)
    with vols Destroy_volumes_trace [of c "Volumes cfg" w0 tr0 r1 w1 tr1]
    show ?thesis by (simp add: ephemeral_volumes_def declared_volumes_def)
  qed
  then obtain evs where evs: "tr1 = tr0 @ evs"
    "fail_fast (map volume_remove (ephemeral_volumes spec)) evs r1" by blast
  have split: "(case Docker spec of
              None \<Rightarrow> (None, Destroy_containers c (Steps spec) (w, tr))
            | Some cfg \<Rightarrow>
                Destroy_volumes c (Volumes cfg) (Destroy_containers c (Steps spec) (w, tr)))
         = (r1, (w1, tr1))"
    using vols ctr by (simp split: option.splits)
  show ?thesis
  proof (cases r1)
    case None
    with assms split have "invoke (network_remove spec)
        (NetworkRemove c (UID (SpecMetadata spec))) (w1, tr1) = (result, (w', tr'))"
      by (simp add: Destroy_def network_remove_def)
    then have "tr' = tr1 @ [(network_remove spec, result)]" by (simp add: invoke_eq)
    with evs None cleanup show ?thesis
      by (intro exI [of _ cleanup] exI [of _ "evs @ [(network_remove spec, result)]"])
         (simp add: Destroy_calls_def fail_fast_snoc)
  next
    case (Some err)
    with assms split have "result = Some err" "tr' = tr1" by (auto simp: Destroy_def)
    with evs Some cleanup show ?thesis
      by (intro exI [of _ cleanup] exI [of _ evs]) (simp add: Destroy_calls_def fail_fast_rest)
  qed
qed

section \<open>Create\<close>


lemma Create_pull_trace:
  assumes "Create_pull c cfg latest po (w, tr) = (r, (w', tr'))"
  shows "if PullPolicy cfg = PullAlways \<or> (PullPolicy cfg = PullDefault \<and> latest)
         then tr' = tr @ [(ImagePullCall (Image cfg) po, r)]
         else tr' = tr \<and> r = None"
  using assms by (auto simp: Create_pull_def invoke_eq split: if_splits)

lemma Create_container_trace:
  assumes "Create_container c spec step cfg po (w, tr) = (r, (w', tr'))"
  shows "\<exists>err post. tr' = tr @ (ContainerCreateCall (UID (StepMetadata step)), err) # post \<and>
     (if IsErrImageNotFound err \<and> PullPolicy cfg \<noteq> PullNever
      then (\<exists>perr. post = [(ImagePullCall (Image cfg) po, Some perr)] \<and> r = Some perr) \<or>
           post = [(ImagePullCall (Image cfg) po, None),
                   (ContainerCreateCall (UID (StepMetadata step)), r)]
      else post = [] \<and> r = err)"
proof -
  obtain err w1 where cr: "ContainerCreate c spec step (UID (StepMetadata step)) w = (err, w1)"
    by (cases "ContainerCreate c spec step (UID (StepMetadata step)) w")
  let ?create = "ContainerCreateCall (UID (StepMetadata step))"
  let ?pull = "ImagePullCall (Image cfg) po"
  show ?thesis
  proof (cases "IsErrImageNotFound err \<and> PullPolicy cfg \<noteq> PullNever")
    case False
    with assms cr have "tr' = tr @ [(?create, err)]" "r = err"
      by (auto simp: Create_container_def invoke_def)
    with False show ?thesis by (intro exI [of _ err] exI [of _ "[]"]) simp
  next
    case True
    obtain perr w2 where pl: "ImagePull c (Image cfg) po w1 = (perr, w2)"
      by (cases "ImagePull c (Image cfg) po w1")
    show ?thesis
    proof (cases perr)
      case (Some e)
      with assms cr pl True have "tr' = tr @ [(?create, err), (?pull, Some e)]" "r = Some e"
        by (auto simp: Create_container_def invoke_def)
      with True show ?thesis
        by (intro exI [of _ err] exI [of _ "[(?pull, Some e)]"]) simp
    next
      case None
      obtain err2 w3 where cr2:
        "ContainerCreate c spec step (UID (StepMetadata step)) w2 = (err2, w3)"
        by (cases "ContainerCreate c spec step (UID (StepMetadata step)) w2")
      with assms cr pl True None
      have "tr' = tr @ [(?create, err), (?pull, None), (?create, err2)]" "r = err2"
        by (auto simp: Create_container_def invoke_def)
      with True show ?thesis
        by (intro exI [of _ err] exI [of _ "[(?pull, None), (?create, r)]"]) simp
    qed
  qed
qed

lemma copy_calls_Cons:
  "copy_calls spec step (mount # mounts) =
     (case LookupFile spec (MountName mount) of
        None \<Rightarrow> copy_calls spec step mounts
      | Some file \<Rightarrow>
          CopyToContainerCall (UID (StepMetadata step)) ''/'' (createTarfile file mount) False #
          copy_calls spec step mounts)"
  by (simp add: copy_calls_def List.map_filter_simps split: option.splits)

lemma Create_files_trace:
  "Create_files c spec step mounts (w, tr) = (result, (w', tr')) \<Longrightarrow>
     \<exists>evs. tr' = tr @ evs \<and> fail_fast (copy_calls spec step mounts) evs result"
proof (induction mounts arbitrary: w tr)
  case Nil
  then show ?case by (simp add: fail_fast_Nil copy_calls_def List.map_filter_simps)
next
  case (Cons mount mounts)
  show ?case
  proof (cases "LookupFile spec (MountName mount)")
    case None
    with Cons show ?thesis by (simp add: copy_calls_Cons)
  next
    case (Some fl)
    let ?copy = "CopyToContainerCall (UID (StepMetadata step)) ''/'' (createTarfile fl mount) False"
    obtain r w1 where op:
      "CopyToContainer c (UID (StepMetadata step)) ''/'' (createTarfile fl mount) False w = (r, w1)"
      by (cases "CopyToContainer c (UID (StepMetadata step)) ''/'' (createTarfile fl mount) False w")
    then have inv: "invoke ?copy
        (CopyToContainer c (UID (StepMetadata step)) ''/'' (createTarfile fl mount) False) (w, tr)
        = (r, (w1, tr @ [(?copy, r)]))"
      by (simp add: invoke_eq)
    show ?thesis
    proof (cases r)
      case None
      with Cons.prems Some inv
      have "Create_files c spec step mounts (w1, tr @ [(?copy, None)]) = (result, (w', tr'))"
        by simp
      from Cons.IH [OF this] obtain evs where
        "tr' = (tr @ [(?copy, None)]) @ evs" "fail_fast (copy_calls spec step mounts) evs result"
        by blast
      then show ?thesis using Some
        by (intro exI [of _ "(?copy, None) # evs"]) (simp add: fail_fast_Cons copy_calls_Cons)
    next
      case (Some err)
      with Cons.prems \<open>LookupFile spec (MountName mount) = Some fl\<close> inv
      have "result = Some err" "tr' = tr @ [(?copy, Some err)]"
        by auto
      then show ?thesis using \<open>LookupFile spec (MountName mount) = Some fl\<close>
        by (intro exI [of _ "[(?copy, Some err)]"]) (simp add: fail_fast_error copy_calls_Cons)
    qed
  qed
qed


lemma Create_trace:
  assumes run: "Create c spec step (w, tr) = (result, (w', tr'))"
    and cfg: "StepDocker step = Some cfg"
    and img: "parseImage (Image cfg) = Inr (canonical, domain, latest)"
  shows "\<exists>r0 created copied.
     tr' = tr @
       (if PullPolicy cfg = PullAlways \<or> (PullPolicy cfg = PullDefault \<and> latest)
        then [(ImagePullCall (Image cfg) (Create_pullopts spec domain), r0)] else []) @
       created @ copied \<and>
     (\<not> (PullPolicy cfg = PullAlways \<or> (PullPolicy cfg = PullDefault \<and> latest)) \<longrightarrow> r0 = None) \<and>
     (case r0 of
        Some perr \<Rightarrow> created = [] \<and> copied = [] \<and> result = Some perr
      | None \<Rightarrow>
          (\<exists>err post r1.
             created = (ContainerCreateCall (UID (StepMetadata step)), err) # post \<and>
             (if IsErrImageNotFound err \<and> PullPolicy cfg \<noteq> PullNever
              then (\<exists>perr. post = [(ImagePullCall (Image cfg) (Create_pullopts spec domain), Some perr)]
                      \<and> r1 = Some perr) \<or>
                   post = [(ImagePullCall (Image cfg) (Create_pullopts spec domain), None),
                           (ContainerCreateCall (UID (StepMetadata step)), r1)]
              else post = [] \<and> r1 = err) \<and>
             (case r1 of
                Some e \<Rightarrow> copied = [] \<and> result = Some e
              | None \<Rightarrow> fail_fast (copy_calls spec step (StepFiles step)) copied result)))"
proof -
  let ?po = "Create_pullopts spec domain"
  let ?cond = "PullPolicy cfg = PullAlways \<or> (PullPolicy cfg = PullDefault \<and> latest)"
  let ?pre = "\<lambda>r0. if ?cond then [(ImagePullCall (Image cfg) ?po, r0)] else []"
  obtain r0 w0 tr0 where p: "Create_pull c cfg latest ?po (w, tr) = (r0, (w0, tr0))"
    by (metis prod.exhaust)
  from Create_pull_trace [OF p] have tr0: "tr0 = tr @ ?pre r0" and r0: "\<not> ?cond \<longrightarrow> r0 = None"
    by (auto split: if_splits)
  show ?thesis
  proof (cases r0)
    case (Some perr)
    with run cfg img p have "result = Some perr" "tr' = tr0"
      by (auto simp: Create_def)
    with tr0 r0 Some show ?thesis
      by (intro exI [of _ r0] exI [of _ "[]"]) simp
  next
    case None
    obtain r1 w1 tr1 where cc: "Create_container c spec step cfg ?po (w0, tr0) = (r1, (w1, tr1))"
      by (metis prod.exhaust)
    from Create_container_trace [OF cc] obtain err post where
      tr1: "tr1 = tr0 @ (ContainerCreateCall (UID (StepMetadata step)), err) # post" and
      shape: "if IsErrImageNotFound err \<and> PullPolicy cfg \<noteq> PullNever
        then (\<exists>perr. post = [(ImagePullCall (Image cfg) ?po, Some perr)] \<and> r1 = Some perr) \<or>
             post = [(ImagePullCall (Image cfg) ?po, None),
                     (ContainerCreateCall (UID (StepMetadata step)), r1)]
        else post = [] \<and> r1 = err"
      by blast
    let ?created = "(ContainerCreateCall (UID (StepMetadata step)), err) # post"
    have "\<exists>copied. tr' = tr1 @ copied \<and>
       (case r1 of Some e \<Rightarrow> copied = [] \<and> result = Some e
        | None \<Rightarrow> fail_fast (copy_calls spec step (StepFiles step)) copied result)"
    proof (cases r1)
      case (Some e)
      with run cfg img p None cc have "result = Some e" "tr' = tr1"
        by (auto simp: Create_def)
      with Some show ?thesis by simp
    next
      case r1: None
      with run cfg img p None cc
      have "Create_files c spec step (StepFiles step) (w1, tr1) = (result, (w', tr'))"
        by (simp add: Create_def)
      from Create_files_trace [OF this] r1 show ?thesis by simp
    qed
    then obtain copied where copied: "tr' = tr1 @ copied"
      "case r1 of Some e \<Rightarrow> copied = [] \<and> result = Some e
        | None \<Rightarrow> fail_fast (copy_calls spec step (StepFiles step)) copied result"
      by blast
    have "tr' = tr @ ?pre r0 @ ?created @ copied"
      using copied(1) tr1 tr0 by simp
    with r0 None shape copied(2) show ?thesis
      by (intro exI [of _ r0] exI [of _ ?created] exI [of _ copied]) (simp only: option.case, blast)
  qed
qed

lemma Create_no_config:
  "StepDocker step = None \<Longrightarrow>
     Create c spec step s = (Some (EngineError ''engine: missing docker configuration''), s)"
  by (simp add: Create_def)

lemma Create_invalid_image:
  "StepDocker step = Some cfg \<Longrightarrow> parseImage (Image cfg) = Inl err \<Longrightarrow>
     Create c spec step s = (Some err, s)"
  by (simp add: Create_def)

lemma fail_fast_calls:
  assumes "fail_fast planned evs result" "ev \<in> set evs"
  shows "fst ev \<in> set planned"
proof -
  from assms(1) have "prefix (map fst evs) planned" by (simp add: fail_fast_def)
  then have "set (map fst evs) \<subseteq> set planned" by (rule set_mono_prefix)
  with assms(2) show ?thesis by auto
qed

lemma copy_calls_is_copy: "cl \<in> set (copy_calls spec step mounts) \<Longrightarrow> is_copy cl"
  by (auto simp: copy_calls_def List.map_filter_def)

lemma fail_fast_copied:
  "fail_fast (copy_calls spec step mounts) evs result \<Longrightarrow> list_all (\<lambda>ev. is_copy (fst ev)) evs"
  by (auto simp: list_all_iff dest: fail_fast_calls copy_calls_is_copy)


text \<open>
  Claim C2. For a step with a Docker configuration whose image reference resolves,
  \<^verbatim>\<open>Create\<close> issues a pull before the first creation of the container if and only
  if the pull policy is \<^verbatim>\<open>PullAlways\<close>, or it is \<^verbatim>\<open>PullDefault\<close> and the resolved
  reference uses the latest tag. Under \<^verbatim>\<open>PullNever\<close> no pull is issued at all. When
  the pull before the creation fails, it is the only call that \<^verbatim>\<open>Create\<close> makes,
  so that no container is created, and its error is the result.
\<close>

theorem Create_pull_policy:
  assumes run: "Create c spec step (w, tr) = (result, (w', tr'))"
    and cfg: "StepDocker step = Some cfg"
    and img: "parseImage (Image cfg) = Inr (canonical, domain, latest)"
  shows "\<exists>evs. tr' = tr @ evs \<and>
     ((\<exists>ev \<in> set (takeWhile (\<lambda>ev. \<not> is_create (fst ev)) evs). is_pull (fst ev)) \<longleftrightarrow>
        PullPolicy cfg = PullAlways \<or> (PullPolicy cfg = PullDefault \<and> latest)) \<and>
     (PullPolicy cfg = PullNever \<longrightarrow> (\<forall>ev \<in> set evs. \<not> is_pull (fst ev))) \<and>
     (\<forall>cl perr rest. evs = (cl, Some perr) # rest \<and> is_pull cl \<longrightarrow>
        rest = [] \<and> result = Some perr)"
proof -
  let ?cond = "PullPolicy cfg = PullAlways \<or> (PullPolicy cfg = PullDefault \<and> latest)"
  let ?pull = "ImagePullCall (Image cfg) (Create_pullopts spec domain)"
  let ?create = "ContainerCreateCall (UID (StepMetadata step))"
  from Create_trace [OF run cfg img] obtain r0 created copied where
    tr': "tr' = tr @ (if ?cond then [(?pull, r0)] else []) @ created @ copied" and
    r0: "\<not> ?cond \<longrightarrow> r0 = None" and
    rest: "case r0 of
        Some perr \<Rightarrow> created = [] \<and> copied = [] \<and> result = Some perr
      | None \<Rightarrow>
          (\<exists>err post r1.
             created = (?create, err) # post \<and>
             (if IsErrImageNotFound err \<and> PullPolicy cfg \<noteq> PullNever
              then (\<exists>perr. post = [(?pull, Some perr)] \<and> r1 = Some perr) \<or>
                   post = [(?pull, None), (?create, r1)]
              else post = [] \<and> r1 = err) \<and>
             (case r1 of
                Some e \<Rightarrow> copied = [] \<and> result = Some e
              | None \<Rightarrow> fail_fast (copy_calls spec step (StepFiles step)) copied result))"
    by blast
  let ?evs = "(if ?cond then [(?pull, r0)] else []) @ created @ copied"
  have first: "(\<exists>ev \<in> set (takeWhile (\<lambda>ev. \<not> is_create (fst ev)) ?evs). is_pull (fst ev)) \<longleftrightarrow> ?cond"
    using rest by (cases r0) auto
  have never: "PullPolicy cfg = PullNever \<longrightarrow> (\<forall>ev \<in> set ?evs. \<not> is_pull (fst ev))"
  proof
    assume n: "PullPolicy cfg = PullNever"
    then have "\<not> ?cond" by simp
    with r0 have "r0 = None" by simp
    with rest n obtain r1 where "created = [(?create, r1)]"
      "case r1 of Some e \<Rightarrow> copied = [] \<and> result = Some e
        | None \<Rightarrow> fail_fast (copy_calls spec step (StepFiles step)) copied result"
      by auto
    then have "list_all (\<lambda>ev. \<not> is_pull (fst ev)) (created @ copied)"
      by (cases r1) (auto simp: list_all_iff dest!: fail_fast_calls copy_calls_is_copy
            elim: is_copy.elims)
    with \<open>\<not> ?cond\<close> show "\<forall>ev \<in> set ?evs. \<not> is_pull (fst ev)"
      by (auto simp: list_all_iff)
  qed
  have failed: "\<forall>cl perr rest. ?evs = (cl, Some perr) # rest \<and> is_pull cl \<longrightarrow>
        rest = [] \<and> result = Some perr"
    using rest by (cases r0) (auto split: if_splits)
  from tr' first never failed show ?thesis by blast
qed


lemma parseImage_alpine:
  "parseImage ''alpine'' = Inr (''docker.io/library/alpine:latest'', ''docker.io'', True)"
  by code_simp

theorem Create_pull_policy_witness:
  "Create (scripted exited_info) demo_spec default_step ([Some (ClientError ''denied'')], []) =
     (Some (ClientError ''denied''), ([], [(ImagePullCall ''alpine'' None, Some (ClientError ''denied''))])) \<and>
   (\<exists>evs. [(ImagePullCall ''alpine'' None, Some (ClientError ''denied''))] = [] @ evs \<and>
     ((\<exists>ev \<in> set (takeWhile (\<lambda>ev. \<not> is_create (fst ev)) evs). is_pull (fst ev)) \<longleftrightarrow>
        PullPolicy default_cfg = PullAlways \<or> (PullPolicy default_cfg = PullDefault \<and> True)) \<and>
     (PullPolicy default_cfg = PullNever \<longrightarrow> (\<forall>ev \<in> set evs. \<not> is_pull (fst ev))) \<and>
     (\<forall>cl perr rest. evs = (cl, Some perr) # rest \<and> is_pull cl \<longrightarrow>
        rest = [] \<and> Some (ClientError ''denied'') = Some perr))"
proof -
  have cfg: "StepDocker default_step = Some default_cfg"
    by (simp add: default_step_def)
  have img: "parseImage (Image default_cfg) =
      Inr (''docker.io/library/alpine:latest'', ''docker.io'', True)"
    by (simp add: parseImage_alpine default_cfg_def)
  have run: "Create (scripted exited_info) demo_spec default_step ([Some (ClientError ''denied'')], []) =
     (Some (ClientError ''denied''), ([], [(ImagePullCall ''alpine'' None, Some (ClientError ''denied''))]))"
    by (simp add: Create_def default_step_def default_cfg_def parseImage_alpine Create_pull_def
        Create_pullopts_def LookupAuth_def demo_spec_def scripted_def reply_def invoke_def)
  from Create_pull_policy [OF run cfg img] run show ?thesis
    by (simp add: default_cfg_def)
qed

text \<open>
  Claim C1. The calls of \<^verbatim>\<open>Create\<close> are the pull before the creation, if any, and
  then, from the first creation of the container on: when that creation fails
  because the image is not found and the pull policy is not \<^verbatim>\<open>PullNever\<close>, exactly
  one pull, whose failure ends \<^verbatim>\<open>Create\<close> with the error of the pull, followed by
  exactly one more creation, whose failure ends \<^verbatim>\<open>Create\<close> with the error of that
  creation, and only copies after it; when the first creation fails otherwise, it is
  the last call and its error is the result; when it succeeds, only copies follow.
\<close>

theorem Create_recovery:
  assumes run: "Create c spec step (w, tr) = (result, (w', tr'))"
    and cfg: "StepDocker step = Some cfg"
  shows "\<exists>pulled created. tr' = tr @ pulled @ created \<and>
     list_all (\<lambda>ev. is_pull (fst ev)) pulled \<and>
     (case created of
        [] \<Rightarrow> result \<noteq> None \<and> (pulled \<noteq> [] \<longrightarrow> snd (last pulled) = result)
      | (cl, err) # post \<Rightarrow>
          cl = ContainerCreateCall (UID (StepMetadata step)) \<and> list_all succeeded pulled \<and>
          (if IsErrImageNotFound err \<and> PullPolicy cfg \<noteq> PullNever
           then (\<exists>auth perr. post = [(ImagePullCall (Image cfg) auth, Some perr)] \<and>
                   result = Some perr) \<or>
                (\<exists>auth e. post = [(ImagePullCall (Image cfg) auth, None),
                                  (ContainerCreateCall (UID (StepMetadata step)), Some e)] \<and>
                   result = Some e) \<or>
                (\<exists>auth copied. post = (ImagePullCall (Image cfg) auth, None) #
                                  (ContainerCreateCall (UID (StepMetadata step)), None) # copied \<and>
                   list_all (\<lambda>ev. is_copy (fst ev)) copied)
           else (case err of
                   Some e \<Rightarrow> post = [] \<and> result = Some e
                 | None \<Rightarrow> list_all (\<lambda>ev. is_copy (fst ev)) post)))"
proof (cases "parseImage (Image cfg)")
  case (Inl e)
  with cfg run have "result = Some e" "tr' = tr" by (auto simp: Create_invalid_image)
  then show ?thesis by (intro exI [of _ "[]"]) simp
next
  case (Inr triple)
  obtain canonical domain latest where "triple = (canonical, domain, latest)"
    by (cases triple)
  with Inr have img: "parseImage (Image cfg) = Inr (canonical, domain, latest)" by simp
  let ?cond = "PullPolicy cfg = PullAlways \<or> (PullPolicy cfg = PullDefault \<and> latest)"
  let ?pull = "ImagePullCall (Image cfg) (Create_pullopts spec domain)"
  let ?create = "ContainerCreateCall (UID (StepMetadata step))"
  from Create_trace [OF run cfg img] obtain r0 created copied where
    tr': "tr' = tr @ (if ?cond then [(?pull, r0)] else []) @ created @ copied" and
    r0: "\<not> ?cond \<longrightarrow> r0 = None" and
    rest: "case r0 of
        Some perr \<Rightarrow> created = [] \<and> copied = [] \<and> result = Some perr
      | None \<Rightarrow>
          (\<exists>err post r1.
             created = (?create, err) # post \<and>
             (if IsErrImageNotFound err \<and> PullPolicy cfg \<noteq> PullNever
              then (\<exists>perr. post = [(?pull, Some perr)] \<and> r1 = Some perr) \<or>
                   post = [(?pull, None), (?create, r1)]
              else post = [] \<and> r1 = err) \<and>
             (case r1 of
                Some e \<Rightarrow> copied = [] \<and> result = Some e
              | None \<Rightarrow> fail_fast (copy_calls spec step (StepFiles step)) copied result))"
    by blast
  let ?pulled = "if ?cond then [(?pull, r0)] else []"
  have pulled: "list_all (\<lambda>ev. is_pull (fst ev)) ?pulled" by simp
  show ?thesis
  proof (cases r0)
    case (Some perr)
    with rest r0 tr' show ?thesis
      by (intro exI [of _ ?pulled] exI [of _ "[]"]) (auto split: if_splits)
  next
    case None
    with rest obtain err post r1 where
      created: "created = (?create, err) # post" and
      shape: "if IsErrImageNotFound err \<and> PullPolicy cfg \<noteq> PullNever
              then (\<exists>perr. post = [(?pull, Some perr)] \<and> r1 = Some perr) \<or>
                   post = [(?pull, None), (?create, r1)]
              else post = [] \<and> r1 = err" and
      files: "case r1 of
                Some e \<Rightarrow> copied = [] \<and> result = Some e
              | None \<Rightarrow> fail_fast (copy_calls spec step (StepFiles step)) copied result"
      by auto
    have copied: "r1 = None \<Longrightarrow> list_all (\<lambda>ev. is_copy (fst ev)) copied"
      using files by (auto dest: fail_fast_copied)
    have ok: "list_all succeeded ?pulled" using None by (simp add: succeeded_def)
    have "if IsErrImageNotFound err \<and> PullPolicy cfg \<noteq> PullNever
           then (\<exists>auth perr. post @ copied = [(ImagePullCall (Image cfg) auth, Some perr)] \<and>
                   result = Some perr) \<or>
                (\<exists>auth e. post @ copied = [(ImagePullCall (Image cfg) auth, None), (?create, Some e)] \<and>
                   result = Some e) \<or>
                (\<exists>auth cp. post @ copied = (ImagePullCall (Image cfg) auth, None) #
                                  (?create, None) # cp \<and>
                   list_all (\<lambda>ev. is_copy (fst ev)) cp)
           else (case err of
                   Some e \<Rightarrow> post @ copied = [] \<and> result = Some e
                 | None \<Rightarrow> list_all (\<lambda>ev. is_copy (fst ev)) (post @ copied))"
    proof (cases "IsErrImageNotFound err \<and> PullPolicy cfg \<noteq> PullNever")
      case False
      with shape have "post = []" "r1 = err" by simp_all
      with False files copied show ?thesis by (cases err) auto
    next
      case True
      with shape consider perr where "post = [(?pull, Some perr)]" "r1 = Some perr"
        | "post = [(?pull, None), (?create, r1)]" by auto
      then show ?thesis
      proof cases
        case 1
        with files True show ?thesis by auto
      next
        case 2
        with files copied True show ?thesis by (cases r1) auto
      qed
    qed
    with tr' created pulled ok show ?thesis
      by (intro exI [of _ ?pulled] exI [of _ "created @ copied"]) simp
  qed
qed


theorem Create_recovery_witness:
  "Create (scripted exited_info) demo_spec default_step
     ([None, Some (ImageNotFound ''alpine'')], []) =
     (None, ([], [(ImagePullCall ''alpine'' None, None),
                  (ContainerCreateCall ''s2'', Some (ImageNotFound ''alpine'')),
                  (ImagePullCall ''alpine'' None, None),
                  (ContainerCreateCall ''s2'', None)])) \<and>
   (\<exists>pulled created.
     [(ImagePullCall ''alpine'' None, None),
      (ContainerCreateCall ''s2'', Some (ImageNotFound ''alpine'')),
      (ImagePullCall ''alpine'' None, None),
      (ContainerCreateCall ''s2'', None)] = [] @ pulled @ created \<and>
     list_all (\<lambda>ev. is_pull (fst ev)) pulled \<and>
     (case created of
        [] \<Rightarrow> (None :: error option) \<noteq> None \<and> (pulled \<noteq> [] \<longrightarrow> snd (last pulled) = None)
      | (cl, err) # post \<Rightarrow>
          cl = ContainerCreateCall (UID (StepMetadata default_step)) \<and> list_all succeeded pulled \<and>
          (if IsErrImageNotFound err \<and> PullPolicy default_cfg \<noteq> PullNever
           then (\<exists>auth perr. post = [(ImagePullCall (Image default_cfg) auth, Some perr)] \<and>
                   None = Some perr) \<or>
                (\<exists>auth e. post = [(ImagePullCall (Image default_cfg) auth, None),
                                  (ContainerCreateCall (UID (StepMetadata default_step)), Some e)] \<and>
                   None = Some e) \<or>
                (\<exists>auth copied. post = (ImagePullCall (Image default_cfg) auth, None) #
                                  (ContainerCreateCall (UID (StepMetadata default_step)), None) # copied \<and>
                   list_all (\<lambda>ev. is_copy (fst ev)) copied)
           else (case err of
                   Some e \<Rightarrow> post = [] \<and> None = Some e
                 | None \<Rightarrow> list_all (\<lambda>ev. is_copy (fst ev)) post))))"
proof -
  have cfg: "StepDocker default_step = Some default_cfg"
    by (simp add: default_step_def)
  have run: "Create (scripted exited_info) demo_spec default_step
     ([None, Some (ImageNotFound ''alpine'')], []) =
     (None, ([], [(ImagePullCall ''alpine'' None, None),
                  (ContainerCreateCall ''s2'', Some (ImageNotFound ''alpine'')),
                  (ImagePullCall ''alpine'' None, None),
                  (ContainerCreateCall ''s2'', None)]))"
    by (simp add: Create_def default_step_def default_cfg_def parseImage_alpine Create_pull_def
        Create_pullopts_def Create_container_def LookupAuth_def demo_spec_def scripted_def
        reply_def invoke_def meta_def)
  from run Create_recovery [OF run cfg] show ?thesis by (rule conjI)
qed

text \<open>
  Claim C7. The copies of \<^verbatim>\<open>Create\<close> are its last calls. They are made only after
  a creation of the container that succeeded, and they are then a fail-fast run of
  the planned copies: one copy for each file mount of the step, in order, whose
  payload the specification has, and none for a mount whose payload it does not
  have, which is passed over without an error; the first copy that fails is the last
  call, and its error is the result of \<^verbatim>\<open>Create\<close>; when none fails, every planned
  copy is made and \<^verbatim>\<open>Create\<close> returns no error.
\<close>

theorem Create_copies:
  assumes run: "Create c spec step (w, tr) = (result, (w', tr'))"
  shows "\<exists>evs copied. tr' = tr @ evs @ copied \<and>
     list_all (\<lambda>ev. \<not> is_copy (fst ev)) evs \<and>
     (if evs \<noteq> [] \<and> last evs = (ContainerCreateCall (UID (StepMetadata step)), None)
      then fail_fast (copy_calls spec step (StepFiles step)) copied result
      else copied = [] \<and> result \<noteq> None)"
proof (cases "StepDocker step")
  case None
  with run have "result = Some (EngineError ''engine: missing docker configuration'')" "tr' = tr"
    by (auto simp: Create_no_config)
  then show ?thesis by (intro exI [of _ "[]"]) simp
next
  case (Some cfg)
  show ?thesis
  proof (cases "parseImage (Image cfg)")
    case (Inl e)
    with Some run have "result = Some e" "tr' = tr" by (auto simp: Create_invalid_image)
    then show ?thesis by (intro exI [of _ "[]"]) simp
  next
    case (Inr triple)
    obtain canonical domain latest where "triple = (canonical, domain, latest)"
      by (cases triple)
    with Inr have img: "parseImage (Image cfg) = Inr (canonical, domain, latest)" by simp
    let ?cond = "PullPolicy cfg = PullAlways \<or> (PullPolicy cfg = PullDefault \<and> latest)"
    let ?pull = "ImagePullCall (Image cfg) (Create_pullopts spec domain)"
    let ?create = "ContainerCreateCall (UID (StepMetadata step))"
    from Create_trace [OF run Some img] obtain r0 created copied where
      tr': "tr' = tr @ (if ?cond then [(?pull, r0)] else []) @ created @ copied" and
      r0: "\<not> ?cond \<longrightarrow> r0 = None" and
      rest: "case r0 of
          Some perr \<Rightarrow> created = [] \<and> copied = [] \<and> result = Some perr
        | None \<Rightarrow>
            (\<exists>err post r1.
               created = (?create, err) # post \<and>
               (if IsErrImageNotFound err \<and> PullPolicy cfg \<noteq> PullNever
                then (\<exists>perr. post = [(?pull, Some perr)] \<and> r1 = Some perr) \<or>
                     post = [(?pull, None), (?create, r1)]
                else post = [] \<and> r1 = err) \<and>
               (case r1 of
                  Some e \<Rightarrow> copied = [] \<and> result = Some e
                | None \<Rightarrow> fail_fast (copy_calls spec step (StepFiles step)) copied result))"
      by blast
    let ?evs = "(if ?cond then [(?pull, r0)] else []) @ created"
    have tr'': "tr' = tr @ ?evs @ copied" using tr' by simp
    show ?thesis
    proof (cases r0)
      case (Some perr)
      with rest r0 have "list_all (\<lambda>ev. \<not> is_copy (fst ev)) ?evs"
        "\<not> (?evs \<noteq> [] \<and> last ?evs = (?create, None))" "copied = []" "result \<noteq> None"
        by (auto split: if_splits)
      with tr'' show ?thesis
        by (intro exI [of _ ?evs] exI [of _ copied]) (simp only: if_False, simp)
    next
      case None
      with rest obtain err post r1 where
        created: "created = (?create, err) # post" and
        shape: "if IsErrImageNotFound err \<and> PullPolicy cfg \<noteq> PullNever
                then (\<exists>perr. post = [(?pull, Some perr)] \<and> r1 = Some perr) \<or>
                     post = [(?pull, None), (?create, r1)]
                else post = [] \<and> r1 = err" and
        files: "case r1 of
                  Some e \<Rightarrow> copied = [] \<and> result = Some e
                | None \<Rightarrow> fail_fast (copy_calls spec step (StepFiles step)) copied result"
        by auto
      have nocopy: "list_all (\<lambda>ev. \<not> is_copy (fst ev)) ?evs"
        using created shape by (auto split: if_splits)
      have last: "last ?evs = last created" using created by simp
      have "last created = (?create, None) \<longleftrightarrow> r1 = None"
        using created shape by (auto split: if_splits)
      with last have iff: "(?evs \<noteq> [] \<and> last ?evs = (?create, None)) \<longleftrightarrow> r1 = None"
        using created by simp
      have "if ?evs \<noteq> [] \<and> last ?evs = (?create, None)
        then fail_fast (copy_calls spec step (StepFiles step)) copied result
        else copied = [] \<and> result \<noteq> None"
        unfolding iff using files by (cases r1) simp_all
      with tr'' nocopy show ?thesis
        by (intro exI [of _ ?evs] exI [of _ copied]) blast
    qed
  qed
qed


theorem Create_copies_witness:
  "Create (scripted exited_info) demo_spec build_step
     ([None, None, Some (ClientError ''read-only'')], []) =
     (Some (ClientError ''read-only''), ([],
        [(ContainerCreateCall ''s1'', None)] @
        [(CopyToContainerCall ''s1'' ''/'' (Tarfile netrc_file netrc_mount) False, None),
         (CopyToContainerCall ''s1'' ''/'' (Tarfile key_file key_mount) False,
          Some (ClientError ''read-only''))])) \<and>
   copy_calls demo_spec build_step (StepFiles build_step) =
     [CopyToContainerCall ''s1'' ''/'' (Tarfile netrc_file netrc_mount) False,
      CopyToContainerCall ''s1'' ''/'' (Tarfile key_file key_mount) False] \<and>
   (\<exists>evs copied.
     [(ContainerCreateCall ''s1'', None)] @
     [(CopyToContainerCall ''s1'' ''/'' (Tarfile netrc_file netrc_mount) False, None),
      (CopyToContainerCall ''s1'' ''/'' (Tarfile key_file key_mount) False,
       Some (ClientError ''read-only''))] = [] @ evs @ copied \<and>
     list_all (\<lambda>ev. \<not> is_copy (fst ev)) evs \<and>
     (if evs \<noteq> [] \<and> last evs = (ContainerCreateCall (UID (StepMetadata build_step)), None)
      then fail_fast (copy_calls demo_spec build_step (StepFiles build_step)) copied
             (Some (ClientError ''read-only''))
      else copied = [] \<and> Some (ClientError ''read-only'') \<noteq> None))"
proof -
  have look: "LookupFile demo_spec ''missing'' = None"
    "LookupFile demo_spec ''netrc'' = Some netrc_file"
    "LookupFile demo_spec ''key'' = Some key_file"
    by (simp_all add: LookupFile_def demo_spec_def netrc_file_def key_file_def meta_def)
  have run: "Create (scripted exited_info) demo_spec build_step
     ([None, None, Some (ClientError ''read-only'')], []) =
     (Some (ClientError ''read-only''), ([],
        [(ContainerCreateCall ''s1'', None)] @
        [(CopyToContainerCall ''s1'' ''/'' (Tarfile netrc_file netrc_mount) False, None),
         (CopyToContainerCall ''s1'' ''/'' (Tarfile key_file key_mount) False,
          Some (ClientError ''read-only''))]))"
    by (simp add: Create_def build_step_def parseImage_alpine Create_pull_def
        Create_pullopts_def Create_container_def LookupAuth_def scripted_def
        reply_def invoke_def meta_def look missing_mount_def netrc_mount_def key_mount_def
        createTarfile_def)
  have planned: "copy_calls demo_spec build_step (StepFiles build_step) =
     [CopyToContainerCall ''s1'' ''/'' (Tarfile netrc_file netrc_mount) False,
      CopyToContainerCall ''s1'' ''/'' (Tarfile key_file key_mount) False]"
    by (simp add: copy_calls_def List.map_filter_simps build_step_def meta_def look
        missing_mount_def netrc_mount_def key_mount_def createTarfile_def)
  from run planned Create_copies [OF run] show ?thesis by (intro conjI)
qed


lemma fail_fast_reaches_final:
  assumes ff: "fail_fast (planned @ [cl]) evs result"
    and ok: "\<forall>ev \<in> set evs. fst ev \<noteq> cl \<longrightarrow> succeeded ev"
  shows "cl \<in> fst ` set evs"
proof (cases result)
  case None
  with ff have "map fst evs = planned @ [cl]" by (simp add: fail_fast_def)
  then have "cl \<in> set (map fst evs)" by simp
  then show ?thesis by simp
next
  case (Some err)
  with ff have ne: "evs \<noteq> []" and l: "snd (last evs) = Some err" by (simp_all add: fail_fast_def)
  from ne have "last evs \<in> set evs" by simp
  moreover from l have "\<not> succeeded (last evs)" by (simp add: succeeded_def)
  ultimately have "fst (last evs) = cl" using ok by blast
  with \<open>last evs \<in> set evs\<close> show ?thesis by force
qed

lemma fail_fast_before_final:
  assumes ff: "fail_fast (planned @ [cl]) evs result"
    and "cl \<notin> set planned" "cl \<in> fst ` set evs" "ev \<in> set evs" "fst ev \<noteq> cl"
  shows "succeeded ev"
proof -
  from fail_fast_final [OF assms(1-3)] have l: "last evs = (cl, result)" by simp
  from assms(4) have ne: "evs \<noteq> []" by auto
  then have "evs = butlast evs @ [last evs]" by simp
  with assms(4) have "ev \<in> set (butlast evs) \<or> ev = last evs"
    by (metis Un_iff empty_iff empty_set set_ConsD set_append)
  with l assms(5) have "ev \<in> set (butlast evs)" by auto
  with ff show ?thesis by (simp add: fail_fast_def list_all_iff)
qed

text \<open>
  Claim C3, as amended. In \<^verbatim>\<open>Destroy\<close> the errors of killing and removing the
  containers are dropped, so that both calls are made for every step, in order.
  The removals of the ephemeral volumes and the removal of the network that follow
  are a fail-fast run: the first removal of a volume that fails is the last call
  made, and its error is the result, so that neither the remaining volumes nor the
  network are removed. The removal of the network is attempted exactly when every
  call made before it in that run succeeded, and the result of \<^verbatim>\<open>Destroy\<close> is then
  the result of that removal.
\<close>

theorem Destroy_cleanup:
  assumes "Destroy c spec (w, tr) = (result, (w', tr'))"
  shows "\<exists>cleanup evs. tr' = tr @ cleanup @ evs \<and>
           map fst cleanup = concat (map container_cleanup (Steps spec)) \<and>
           fail_fast (Destroy_calls spec) evs result \<and>
           (network_remove spec \<in> fst ` set evs \<longleftrightarrow>
              (\<forall>ev \<in> set evs. fst ev \<noteq> network_remove spec \<longrightarrow> succeeded ev)) \<and>
           (network_remove spec \<in> fst ` set evs \<longrightarrow>
              map fst evs = Destroy_calls spec \<and> last evs = (network_remove spec, result))"
proof -
  from Destroy_trace [OF assms] obtain cleanup evs where
    evs: "tr' = tr @ cleanup @ evs"
      "map fst cleanup = concat (map container_cleanup (Steps spec))"
      "fail_fast (Destroy_calls spec) evs result" by blast
  have fresh: "network_remove spec \<notin> set (map volume_remove (ephemeral_volumes spec))"
    by (auto simp: network_remove_def volume_remove_def)
  from evs(3) have ff: "fail_fast (map volume_remove (ephemeral_volumes spec) @ [network_remove spec])
      evs result"
    by (simp add: Destroy_calls_def)
  have "network_remove spec \<in> fst ` set evs \<longleftrightarrow>
      (\<forall>ev \<in> set evs. fst ev \<noteq> network_remove spec \<longrightarrow> succeeded ev)"
    using fail_fast_reaches_final [OF ff] fail_fast_before_final [OF ff fresh] by blast
  moreover have "network_remove spec \<in> fst ` set evs \<longrightarrow>
      map fst evs = Destroy_calls spec \<and> last evs = (network_remove spec, result)"
    using fail_fast_final [OF ff fresh] by (simp add: Destroy_calls_def)
  ultimately show ?thesis using evs by blast
qed

text \<open>
  The claim C3 as stated, that the removal of the network is always attempted, fails
  where the removal of a volume fails: the removal of the network is not among the
  calls made.
\<close>

theorem Destroy_network_counterexample:
  "Destroy (scripted exited_info) demo_spec ([None, None, Some (ClientError ''busy'')], []) =
     (Some (ClientError ''busy''), ([],
        [(ContainerKillCall ''s1'' ''9'', None),
         (ContainerRemoveCall ''s1'' True False True, None),
         (VolumeRemoveCall ''v1'' True, Some (ClientError ''busy''))])) \<and>
   NetworkRemoveCall ''run'' \<notin>
     fst ` set (snd (snd (Destroy (scripted exited_info) demo_spec
                            ([None, None, Some (ClientError ''busy'')], []))))"
proof -
  have run: "Destroy (scripted exited_info) demo_spec ([None, None, Some (ClientError ''busy'')], []) =
     (Some (ClientError ''busy''), ([],
        [(ContainerKillCall ''s1'' ''9'', None),
         (ContainerRemoveCall ''s1'' True False True, None),
         (VolumeRemoveCall ''v1'' True, Some (ClientError ''busy''))]))"
    by (simp add: Destroy_def demo_spec_def build_step_def ephemeral_def hostpath_def meta_def
        scripted_def reply_def invoke_def)
  show ?thesis unfolding run by simp
qed

theorem Destroy_cleanup_witness:
  "Destroy (scripted exited_info) demo_spec
     ([Some (ClientError ''not running''), None, None, None, Some (ClientError ''in use'')], []) =
     (Some (ClientError ''in use''), ([],
        [(ContainerKillCall ''s1'' ''9'', Some (ClientError ''not running'')),
         (ContainerRemoveCall ''s1'' True False True, None)] @
        [(VolumeRemoveCall ''v1'' True, None), (VolumeRemoveCall ''v2'' True, None),
         (NetworkRemoveCall ''run'', Some (ClientError ''in use''))])) \<and>
   (\<exists>cleanup evs.
      [(ContainerKillCall ''s1'' ''9'', Some (ClientError ''not running'')),
       (ContainerRemoveCall ''s1'' True False True, None)] @
      [(VolumeRemoveCall ''v1'' True, None), (VolumeRemoveCall ''v2'' True, None),
       (NetworkRemoveCall ''run'', Some (ClientError ''in use''))] = [] @ cleanup @ evs \<and>
      map fst cleanup = concat (map container_cleanup (Steps demo_spec)) \<and>
      fail_fast (Destroy_calls demo_spec) evs (Some (ClientError ''in use'')) \<and>
      (network_remove demo_spec \<in> fst ` set evs \<longleftrightarrow>
         (\<forall>ev \<in> set evs. fst ev \<noteq> network_remove demo_spec \<longrightarrow> succeeded ev)) \<and>
      (network_remove demo_spec \<in> fst ` set evs \<longrightarrow>
         map fst evs = Destroy_calls demo_spec \<and>
         last evs = (network_remove demo_spec, Some (ClientError ''in use''))))"
proof -
  have run: "Destroy (scripted exited_info) demo_spec
     ([Some (ClientError ''not running''), None, None, None, Some (ClientError ''in use'')], []) =
     (Some (ClientError ''in use''), ([],
        [(ContainerKillCall ''s1'' ''9'', Some (ClientError ''not running'')),
         (ContainerRemoveCall ''s1'' True False True, None)] @
        [(VolumeRemoveCall ''v1'' True, None), (VolumeRemoveCall ''v2'' True, None),
         (NetworkRemoveCall ''run'', Some (ClientError ''in use''))]))"
    by (simp add: Destroy_def demo_spec_def build_step_def ephemeral_def hostpath_def meta_def
        scripted_def reply_def invoke_def)
  from run Destroy_cleanup [OF run] show ?thesis by (rule conjI)
qed


section \<open>Volumes\<close>

lemma set_map_filter: "y \<in> set (List.map_filter f xs) \<longleftrightarrow> (\<exists>x \<in> set xs. f x = Some y)"
  by (induction xs) (auto simp: List.map_filter_simps split: option.splits)

lemma volume_targets_iff:
  "name \<in> volume_targets evs \<longleftrightarrow> (\<exists>ev \<in> set evs. volume_target (fst ev) = Some name)"
  by (simp add: volume_targets_def set_map_filter)

lemma volume_targets_append [simp]:
  "volume_targets (xs @ ys) = volume_targets xs \<union> volume_targets ys"
  by (auto simp: volume_targets_iff)

lemma volume_targets_planned:
  assumes "\<forall>ev \<in> set evs. fst ev \<in> set planned"
    and "\<forall>cl \<in> set planned. \<forall>name. volume_target cl = Some name \<longrightarrow> name \<in> N"
  shows "volume_targets evs \<subseteq> N"
proof
  fix name assume "name \<in> volume_targets evs"
  then obtain ev where "ev \<in> set evs" "volume_target (fst ev) = Some name"
    by (auto simp: volume_targets_iff)
  with assms show "name \<in> N" by blast
qed

lemma ephemeral_distinct:
  assumes "distinct (map volume_name (declared_volumes spec))"
    and "vol \<in> set (declared_volumes spec)" "EmptyDir vol = None"
  shows "volume_name vol \<notin> set (map volume_name (ephemeral_volumes spec))"
proof
  assume "volume_name vol \<in> set (map volume_name (ephemeral_volumes spec))"
  then obtain vol' where v': "vol' \<in> set (declared_volumes spec)" "EmptyDir vol' \<noteq> None"
    "volume_name vol' = volume_name vol"
    by (auto simp: ephemeral_volumes_def)
  from assms(1) have "inj_on volume_name (set (declared_volumes spec))"
    by (simp add: distinct_map)
  with v' assms(2) have "vol' = vol" by (auto dest: inj_onD)
  with v'(2) assms(3) show False by simp
qed

lemma only_ephemeralI:
  assumes "volume_targets evs \<subseteq> set (map volume_name (ephemeral_volumes spec))"
  shows "only_ephemeral spec evs"
  unfolding only_ephemeral_def using assms ephemeral_distinct [of spec] by blast

lemma Create_calls:
  assumes run: "Create c spec step (w, tr) = (result, (w', tr'))"
  shows "\<exists>evs. tr' = tr @ evs \<and>
     list_all (\<lambda>ev. is_pull (fst ev) \<or> is_create (fst ev) \<or> is_copy (fst ev)) evs"
proof (cases "StepDocker step")
  case None
  with run have "tr' = tr" by (auto simp: Create_no_config)
  then show ?thesis by simp
next
  case (Some cfg)
  show ?thesis
  proof (cases "parseImage (Image cfg)")
    case (Inl e)
    with Some run have "tr' = tr" by (auto simp: Create_invalid_image)
    then show ?thesis by simp
  next
    case (Inr triple)
    obtain canonical domain latest where "triple = (canonical, domain, latest)"
      by (cases triple)
    with Inr have img: "parseImage (Image cfg) = Inr (canonical, domain, latest)" by simp
    let ?cond = "PullPolicy cfg = PullAlways \<or> (PullPolicy cfg = PullDefault \<and> latest)"
    let ?pull = "ImagePullCall (Image cfg) (Create_pullopts spec domain)"
    let ?create = "ContainerCreateCall (UID (StepMetadata step))"
    from Create_trace [OF run Some img] obtain r0 created copied where
      tr': "tr' = tr @ (if ?cond then [(?pull, r0)] else []) @ created @ copied" and
      rest: "case r0 of
          Some perr \<Rightarrow> created = [] \<and> copied = [] \<and> result = Some perr
        | None \<Rightarrow>
            (\<exists>err post r1.
               created = (?create, err) # post \<and>
               (if IsErrImageNotFound err \<and> PullPolicy cfg \<noteq> PullNever
                then (\<exists>perr. post = [(?pull, Some perr)] \<and> r1 = Some perr) \<or>
                     post = [(?pull, None), (?create, r1)]
                else post = [] \<and> r1 = err) \<and>
               (case r1 of
                  Some e \<Rightarrow> copied = [] \<and> result = Some e
                | None \<Rightarrow> fail_fast (copy_calls spec step (StepFiles step)) copied result))"
      by blast
    let ?P = "\<lambda>ev. is_pull (fst ev) \<or> is_create (fst ev) \<or> is_copy (fst ev)"
    have "list_all ?P (created @ copied)"
    proof (cases r0)
      case (Some perr)
      with rest show ?thesis by simp
    next
      case None
      with rest obtain err post r1 where
        created: "created = (?create, err) # post" and
        shape: "if IsErrImageNotFound err \<and> PullPolicy cfg \<noteq> PullNever
                then (\<exists>perr. post = [(?pull, Some perr)] \<and> r1 = Some perr) \<or>
                     post = [(?pull, None), (?create, r1)]
                else post = [] \<and> r1 = err" and
        files: "case r1 of
                  Some e \<Rightarrow> copied = [] \<and> result = Some e
                | None \<Rightarrow> fail_fast (copy_calls spec step (StepFiles step)) copied result"
        by auto
      have "list_all ?P created" using created shape by (auto split: if_splits)
      moreover have "list_all ?P copied"
      proof (cases r1)
        case None
        with files have "list_all (\<lambda>ev. is_copy (fst ev)) copied"
          by (auto dest: fail_fast_copied)
        then show ?thesis by (simp add: list_all_iff)
      next
        case (Some e)
        with files show ?thesis by simp
      qed
      ultimately show ?thesis by simp
    qed
    with tr' show ?thesis
      by (intro exI [of _ "(if ?cond then [(?pull, r0)] else []) @ created @ copied"]) simp
  qed
qed

lemma no_volume_targets:
  "list_all (\<lambda>ev. is_pull (fst ev) \<or> is_create (fst ev) \<or> is_copy (fst ev)) evs \<Longrightarrow>
     volume_targets evs = {}"
proof -
  have "volume_target cl = None" if "is_pull cl \<or> is_create cl \<or> is_copy cl" for cl
    using that by (cases cl) auto
  moreover assume "list_all (\<lambda>ev. is_pull (fst ev) \<or> is_create (fst ev) \<or> is_copy (fst ev)) evs"
  ultimately have "\<forall>ev \<in> set evs. volume_target (fst ev) = None"
    by (simp add: list_all_iff)
  then show ?thesis by (auto simp: volume_targets_iff)
qed

text \<open>
  Claim C8. Every volume that a call of \<^verbatim>\<open>Setup\<close> creates, and every volume that a
  call of \<^verbatim>\<open>Destroy\<close> removes, has the name of a declared ephemeral volume (one
  with an \<^verbatim>\<open>EmptyDir\<close> configuration); the names of the declared volumes being
  distinct, a declared volume without that configuration is the target of no such
  call. The calls of \<^verbatim>\<open>Create\<close>, \<^verbatim>\<open>Start\<close>, \<^verbatim>\<open>Wait\<close> and \<^verbatim>\<open>Tail\<close> create and
  remove no volume at all.
\<close>

theorem only_ephemeral_volumes:
  "(Setup c spec (w, tr) = (r1, (w', tr')) \<longrightarrow>
      (\<exists>evs. tr' = tr @ evs \<and> only_ephemeral spec evs)) \<and>
   (Destroy c spec (w, tr) = (r2, (w', tr')) \<longrightarrow>
      (\<exists>evs. tr' = tr @ evs \<and> only_ephemeral spec evs)) \<and>
   (Create c spec step (w, tr) = (r3, (w', tr')) \<longrightarrow>
      (\<exists>evs. tr' = tr @ evs \<and> volume_targets evs = {})) \<and>
   (Start c step (w, tr) = (r4, (w', tr')) \<longrightarrow>
      (\<exists>evs. tr' = tr @ evs \<and> volume_targets evs = {})) \<and>
   (Wait c step (w, tr) = Some (r5, (w', tr')) \<longrightarrow>
      (\<exists>evs. tr' = tr @ evs \<and> volume_targets evs = {})) \<and>
   (Tail demux c step (w, tr) = (r6, (w', tr')) \<longrightarrow>
      (\<exists>evs. tr' = tr @ evs \<and> volume_targets evs = {}))"
proof (intro conjI impI)
  assume "Setup c spec (w, tr) = (r1, (w', tr'))"
  from Setup_trace [OF this] obtain evs where
    evs: "tr' = tr @ evs" "fail_fast (Setup_calls spec) evs r1" by blast
  have "volume_targets evs \<subseteq> set (map volume_name (ephemeral_volumes spec))"
  proof (rule volume_targets_planned [where planned = "Setup_calls spec"])
    show "\<forall>ev \<in> set evs. fst ev \<in> set (Setup_calls spec)"
      using evs(2) by (blast dest: fail_fast_calls)
    show "\<forall>cl \<in> set (Setup_calls spec). \<forall>name. volume_target cl = Some name \<longrightarrow>
        name \<in> set (map volume_name (ephemeral_volumes spec))"
      by (auto simp: Setup_calls_def volume_create_def network_create_def volume_name_def)
  qed
  with evs(1) show "\<exists>evs. tr' = tr @ evs \<and> only_ephemeral spec evs"
    by (blast intro: only_ephemeralI)
next
  assume "Destroy c spec (w, tr) = (r2, (w', tr'))"
  from Destroy_trace [OF this] obtain cleanup evs where
    evs: "tr' = tr @ cleanup @ evs"
      "map fst cleanup = concat (map container_cleanup (Steps spec))"
      "fail_fast (Destroy_calls spec) evs r2" by blast
  have "volume_targets cleanup \<subseteq> set (map volume_name (ephemeral_volumes spec))"
  proof (rule volume_targets_planned [where planned = "concat (map container_cleanup (Steps spec))"])
    show "\<forall>ev \<in> set cleanup. fst ev \<in> set (concat (map container_cleanup (Steps spec)))"
      using evs(2) by (metis image_eqI set_map)
    show "\<forall>cl \<in> set (concat (map container_cleanup (Steps spec))). \<forall>name.
        volume_target cl = Some name \<longrightarrow> name \<in> set (map volume_name (ephemeral_volumes spec))"
      by (auto simp: container_cleanup_def)
  qed
  moreover have "volume_targets evs \<subseteq> set (map volume_name (ephemeral_volumes spec))"
  proof (rule volume_targets_planned [where planned = "Destroy_calls spec"])
    show "\<forall>ev \<in> set evs. fst ev \<in> set (Destroy_calls spec)"
      using evs(3) by (blast dest: fail_fast_calls)
    show "\<forall>cl \<in> set (Destroy_calls spec). \<forall>name. volume_target cl = Some name \<longrightarrow>
        name \<in> set (map volume_name (ephemeral_volumes spec))"
      by (auto simp: Destroy_calls_def volume_remove_def network_remove_def volume_name_def)
  qed
  ultimately have "volume_targets (cleanup @ evs) \<subseteq> set (map volume_name (ephemeral_volumes spec))"
    by simp
  with evs(1) show "\<exists>evs. tr' = tr @ evs \<and> only_ephemeral spec evs"
    by (blast intro: only_ephemeralI)
next
  assume "Create c spec step (w, tr) = (r3, (w', tr'))"
  from Create_calls [OF this] show "\<exists>evs. tr' = tr @ evs \<and> volume_targets evs = {}"
    by (blast dest: no_volume_targets)
next
  assume "Start c step (w, tr) = (r4, (w', tr'))"
  then have "tr' = tr @ [(ContainerStartCall (UID (StepMetadata step)), r4)]"
    by (simp add: Start_def invoke_eq)
  then show "\<exists>evs. tr' = tr @ evs \<and> volume_targets evs = {}"
    by (auto simp: volume_targets_iff)
next
  assume "Wait c step (w, tr) = Some (r5, (w', tr'))"
  then obtain e1 e2 where "tr' = tr @ [(ContainerWaitCall (UID (StepMetadata step)) [], e1),
      (ContainerInspectCall (UID (StepMetadata step)), e2)]"
    by (auto simp: Wait_def Let_def split: prod.splits wait_reply.splits sum.splits)
  then show "\<exists>evs. tr' = tr @ evs \<and> volume_targets evs = {}"
    by (auto simp: volume_targets_iff)
next
  assume "Tail demux c step (w, tr) = (r6, (w', tr'))"
  then obtain e where "tr' = tr @ [(ContainerLogsCall (UID (StepMetadata step)), e)]"
    by (auto simp: Tail_def split: prod.splits sum.splits)
  then show "\<exists>evs. tr' = tr @ evs \<and> volume_targets evs = {}"
    by (auto simp: volume_targets_iff)
qed


theorem only_ephemeral_volumes_witness:
  "only_ephemeral demo_spec
     [(VolumeCreateCall ''v1'' ''local'' [], None), (VolumeCreateCall ''v2'' ''local'' [], None),
      (NetworkCreateCall ''run'' ''bridge'' [], None)] \<and>
   distinct (map volume_name (declared_volumes demo_spec)) \<and>
   hostpath ''h'' \<in> set (declared_volumes demo_spec) \<and>
   ''h'' \<notin> volume_targets
     [(VolumeCreateCall ''v1'' ''local'' [], None), (VolumeCreateCall ''v2'' ''local'' [], None),
      (NetworkCreateCall ''run'' ''bridge'' [], None)] \<and>
   only_ephemeral demo_spec
     [(ContainerKillCall ''s1'' ''9'', None), (ContainerRemoveCall ''s1'' True False True, None),
      (VolumeRemoveCall ''v1'' True, None), (VolumeRemoveCall ''v2'' True, None),
      (NetworkRemoveCall ''run'', None)] \<and>
   volume_targets [(ImagePullCall ''alpine'' None, None),
     (ContainerCreateCall ''s2'', Some (ClientError ''conflict''))] = {} \<and>
   volume_targets [(ContainerStartCall ''s2'', None)] = {} \<and>
   volume_targets [(ContainerWaitCall ''s2'' [], None), (ContainerInspectCall ''s2'', None)] = {} \<and>
   volume_targets [(ContainerLogsCall ''s2'', None)] = {}"
proof -
  let ?c = "scripted exited_info"
  let ?made = "[(VolumeCreateCall ''v1'' ''local'' [], None),
      (VolumeCreateCall ''v2'' ''local'' [], None), (NetworkCreateCall ''run'' ''bridge'' [], None)]"
  let ?undone = "[(ContainerKillCall ''s1'' ''9'', None),
      (ContainerRemoveCall ''s1'' True False True, None),
      (VolumeRemoveCall ''v1'' True, None), (VolumeRemoveCall ''v2'' True, None),
      (NetworkRemoveCall ''run'', None)]"
  have run_setup: "Setup ?c demo_spec ([], []) = (None, ([], ?made))"
    by (simp add: Setup_def demo_spec_def ephemeral_def hostpath_def meta_def scripted_def
        reply_def invoke_def)
  have run_destroy: "Destroy ?c demo_spec ([], []) = (None, ([], ?undone))"
    by (simp add: Destroy_def demo_spec_def build_step_def ephemeral_def hostpath_def meta_def
        scripted_def reply_def invoke_def)
  have run_create: "Create ?c demo_spec default_step ([None, Some (ClientError ''conflict'')], []) =
      (Some (ClientError ''conflict''),
       ([], [(ImagePullCall ''alpine'' None, None),
             (ContainerCreateCall ''s2'', Some (ClientError ''conflict''))]))"
    by (simp add: Create_def default_step_def default_cfg_def parseImage_alpine Create_pull_def
        Create_pullopts_def Create_container_def LookupAuth_def demo_spec_def scripted_def
        reply_def invoke_def meta_def)
  have run_start: "Start ?c default_step ([], []) = (None, ([], [(ContainerStartCall ''s2'', None)]))"
    by (simp add: Start_def default_step_def scripted_def reply_def invoke_def meta_def)
  have run_wait: "Wait ?c default_step ([], []) =
      Some (Inr \<lparr>ExitCode = 3, Exited = True, OOMKilled = False\<rparr>,
        ([], [(ContainerWaitCall ''s2'' [], None), (ContainerInspectCall ''s2'', None)]))"
    by (simp add: Wait_def default_step_def scripted_def reply_def exited_info_def meta_def)
  have run_tail: "Tail id ?c default_step ([], []) = (Inr [], ([], [(ContainerLogsCall ''s2'', None)]))"
    by (simp add: Tail_def default_step_def scripted_def reply_def meta_def)
  have declared: "declared_volumes demo_spec = [ephemeral ''v1'', hostpath ''h'', ephemeral ''v2'']"
    by (simp add: declared_volumes_def demo_spec_def)
  have dist: "distinct (map volume_name (declared_volumes demo_spec))"
    by (simp add: declared volume_name_def ephemeral_def hostpath_def meta_def)
  have h: "hostpath ''h'' \<in> set (declared_volumes demo_spec)"
    by (simp add: declared)
  have 1: "only_ephemeral demo_spec ?made"
    using only_ephemeral_volumes [of ?c demo_spec "[]" "[]" None "[]" ?made] run_setup by simp
  have 2: "only_ephemeral demo_spec ?undone"
    using only_ephemeral_volumes [of ?c demo_spec "[]" "[]" _ "[]" ?undone None] run_destroy by simp
  have 3: "volume_targets [(ImagePullCall ''alpine'' None, None),
     (ContainerCreateCall ''s2'', Some (ClientError ''conflict''))] = {}"
    using only_ephemeral_volumes [of ?c demo_spec "[None, Some (ClientError ''conflict'')]" "[]"
        _ "[]" _ _ default_step "Some (ClientError ''conflict'')"] run_create
    by simp
  have 4: "volume_targets [(ContainerStartCall ''s2'', None)] = {}"
    using only_ephemeral_volumes [of ?c _ "[]" "[]" _ "[]" "[(ContainerStartCall ''s2'', None)]"
        _ default_step _ None] run_start
    by simp
  have 5: "volume_targets [(ContainerWaitCall ''s2'' [], None), (ContainerInspectCall ''s2'', None)] = {}"
    using only_ephemeral_volumes [of ?c _ "[]" "[]" _ "[]"
        "[(ContainerWaitCall ''s2'' [], None), (ContainerInspectCall ''s2'', None)]"
        _ default_step _ _ "Inr \<lparr>ExitCode = 3, Exited = True, OOMKilled = False\<rparr>"] run_wait
    by simp
  have 6: "volume_targets [(ContainerLogsCall ''s2'', None)] = {}"
    using only_ephemeral_volumes [of ?c _ "[]" "[]" _ "[]" "[(ContainerLogsCall ''s2'', None)]"
        _ default_step _ _ _ id "Inr []"] run_tail
    by simp
  from 1 dist h have 7: "''h'' \<notin> volume_targets ?made"
    unfolding only_ephemeral_def by (auto simp: hostpath_def volume_name_def meta_def)
  from 1 dist h 7 2 3 4 5 6 show ?thesis by (intro conjI)
qed


section \<open>Wait\<close>

text \<open>
  Claim C10. When the wait resolves, by a status or by an error delivered on the
  error channel, \<^verbatim>\<open>Wait\<close> returns, and what it returns is decided by the inspection
  of the container that follows alone: the error of the inspection if it fails, and
  otherwise a state that has exited, with the exit code and the out-of-memory flag
  inspected, whether or not the inspection reports the container as running. The
  error delivered on the error channel is not returned.
\<close>

theorem Wait_result:
  assumes "ContainerWait c (UID (StepMetadata step)) [] w = (signal, w1)"
    and "signal \<noteq> WaitBlocked"
    and "ContainerInspect c (UID (StepMetadata step)) w1 = (inspected, w2)"
  shows "\<exists>res tr'. Wait c step (w, tr) = Some (res, (w2, tr')) \<and>
     (isl res \<longleftrightarrow> isl inspected) \<and>
     (\<forall>err. inspected = Inl err \<longrightarrow> res = Inl err) \<and>
     (\<forall>info. inspected = Inr info \<longrightarrow>
        res = Inr \<lparr>ExitCode = InfoExitCode info, Exited = True, OOMKilled = InfoOOMKilled info\<rparr>)"
  using assms by (cases signal; cases inspected) (simp_all add: Wait_def)

theorem Wait_result_witness:
  "ContainerWait (scripted running_info) (UID (StepMetadata default_step)) []
     [Some (ClientError ''canceled'')] = (WaitError (ClientError ''canceled''), []) \<and>
   WaitError (ClientError ''canceled'') \<noteq> WaitBlocked \<and>
   ContainerInspect (scripted running_info) (UID (StepMetadata default_step)) [] =
     (Inr running_info, []) \<and>
   InfoRunning running_info \<and>
   (\<exists>res tr'. Wait (scripted running_info) default_step ([Some (ClientError ''canceled'')], []) =
        Some (res, ([], tr')) \<and>
     (isl res \<longleftrightarrow> isl (Inr running_info :: error + ContainerInfo)) \<and>
     (\<forall>err. (Inr running_info :: error + ContainerInfo) = Inl err \<longrightarrow> res = Inl err) \<and>
     (\<forall>info. (Inr running_info :: error + ContainerInfo) = Inr info \<longrightarrow>
        res = Inr \<lparr>ExitCode = InfoExitCode info, Exited = True, OOMKilled = InfoOOMKilled info\<rparr>))"
proof -
  have w: "ContainerWait (scripted running_info) (UID (StepMetadata default_step)) []
     [Some (ClientError ''canceled'')] = (WaitError (ClientError ''canceled''), [])"
    by (simp add: scripted_def reply_def)
  have b: "WaitError (ClientError ''canceled'') \<noteq> WaitBlocked" by simp
  have i: "ContainerInspect (scripted running_info) (UID (StepMetadata default_step)) [] =
     (Inr running_info, [])"
    by (simp add: scripted_def reply_def)
  have r: "InfoRunning running_info" by (simp add: running_info_def)
  from w b i r Wait_result [OF w b i, of "[]"] show ?thesis by (intro conjI)
qed

section \<open>Destroy twice\<close>

lemma invoke_fst: "fst (invoke cl op s) = fst (op (fst s))"
  by (simp add: invoke_def split: prod.splits)

lemma invoke_world: "fst (snd (invoke cl op s)) = snd (op (fst s))"
  by (simp add: invoke_def split: prod.splits)

lemma absent_step:
  assumes "removal_contract c hv hn" "cleanup_step c w w'" "absent hv hn V N w"
  shows "absent hv hn V N w'"
  using assms unfolding removal_contract_def absent_def by blast

lemma Destroy_containers_absent:
  assumes c: "removal_contract c hv hn"
  shows "absent hv hn V N (fst s) \<Longrightarrow> absent hv hn V N (fst (Destroy_containers c steps s))"
proof (induction steps arbitrary: s)
  case Nil
  then show ?case by simp
next
  case (Cons step steps)
  let ?s1 = "snd (invoke (ContainerKillCall (UID (StepMetadata step)) ''9'')
      (ContainerKill c (UID (StepMetadata step)) ''9'') s)"
  let ?s2 = "snd (invoke (ContainerRemoveCall (UID (StepMetadata step)) True False True)
      (ContainerRemove c (UID (StepMetadata step)) True False True) ?s1)"
  have "cleanup_step c (fst s) (fst ?s1)"
    unfolding cleanup_step_def invoke_world by blast
  with c Cons.prems have 1: "absent hv hn V N (fst ?s1)" by (blast intro: absent_step)
  have "cleanup_step c (fst ?s1) (fst ?s2)"
    unfolding cleanup_step_def invoke_world by blast
  with c 1 have "absent hv hn V N (fst ?s2)" by (blast intro: absent_step)
  from Cons.IH [OF this] show ?case by (auto split: prod.splits)
qed

lemma Destroy_volumes_removed:
  assumes c: "removal_contract c hv hn"
  shows "Destroy_volumes c vols s = (None, s') \<Longrightarrow> absent hv hn V N (fst s) \<Longrightarrow>
     absent hv hn (V \<union> volume_name ` {vol \<in> set vols. EmptyDir vol \<noteq> None}) N (fst s')"
proof (induction vols arbitrary: s V)
  case Nil
  then show ?case by simp
next
  case (Cons vol vols)
  show ?case
  proof (cases "EmptyDir vol = None")
    case True
    with Cons.prems have "Destroy_volumes c vols s = (None, s')" by simp
    from Cons.IH [OF this Cons.prems(2)] True show ?thesis
      by (auto simp: absent_def)
  next
    case False
    let ?r = "invoke (VolumeRemoveCall (UID (VolumeMetadata vol)) True)
        (VolumeRemove c (UID (VolumeMetadata vol)) True) s"
    from Cons.prems(1) False have ok: "fst ?r = None" and
      rest: "Destroy_volumes c vols (snd ?r) = (None, s')"
      by (auto split: prod.splits option.splits)
    have "cleanup_step c (fst s) (fst (snd ?r))"
      unfolding cleanup_step_def invoke_world by blast
    with c Cons.prems(2) have "absent hv hn V N (fst (snd ?r))" by (blast intro: absent_step)
    moreover from ok c have "\<not> hv (fst (snd ?r)) (volume_name vol)"
      unfolding invoke_fst invoke_world removal_contract_def volume_name_def by blast
    ultimately have "absent hv hn (insert (volume_name vol) V) N (fst (snd ?r))"
      by (simp add: absent_def)
    from Cons.IH [OF rest this] False show ?thesis
      by (auto simp: absent_def)
  qed
qed

lemma Destroy_volumes_absent:
  assumes c: "removal_contract c hv hn"
  shows "absent hv hn V N (fst s) \<Longrightarrow> volume_name ` {vol \<in> set vols. EmptyDir vol \<noteq> None} \<subseteq> V \<Longrightarrow>
     fst (Destroy_volumes c vols s) = None \<and> absent hv hn V N (fst (snd (Destroy_volumes c vols s)))"
proof (induction vols arbitrary: s)
  case Nil
  then show ?case by simp
next
  case (Cons vol vols)
  show ?case
  proof (cases "EmptyDir vol = None")
    case True
    from Cons.prems(2) have "volume_name ` {vol \<in> set vols. EmptyDir vol \<noteq> None} \<subseteq> V"
      by auto
    from Cons.IH [OF Cons.prems(1) this] True show ?thesis by simp
  next
    case False
    let ?r = "invoke (VolumeRemoveCall (UID (VolumeMetadata vol)) True)
        (VolumeRemove c (UID (VolumeMetadata vol)) True) s"
    from False Cons.prems(2) have "volume_name vol \<in> V" by auto
    with Cons.prems(1) have "\<not> hv (fst s) (UID (VolumeMetadata vol))"
      by (auto simp: absent_def volume_name_def)
    with c have ok: "fst ?r = None"
      unfolding invoke_fst removal_contract_def by blast
    have "cleanup_step c (fst s) (fst (snd ?r))"
      unfolding cleanup_step_def invoke_world by blast
    with c Cons.prems(1) have "absent hv hn V N (fst (snd ?r))" by (blast intro: absent_step)
    moreover from Cons.prems(2) have "volume_name ` {vol \<in> set vols. EmptyDir vol \<noteq> None} \<subseteq> V"
      by auto
    ultimately have "fst (Destroy_volumes c vols (snd ?r)) = None \<and>
        absent hv hn V N (fst (snd (Destroy_volumes c vols (snd ?r))))"
      by (rule Cons.IH)
    with ok False show ?thesis by (auto split: prod.splits option.splits)
  qed
qed


lemma ephemeral_names:
  "volume_name ` set (ephemeral_volumes spec) =
     (case Docker spec of None \<Rightarrow> {}
      | Some cfg \<Rightarrow> volume_name ` {vol \<in> set (Volumes cfg). EmptyDir vol \<noteq> None})"
  by (auto simp: ephemeral_volumes_def declared_volumes_def split: option.splits)

lemma Destroy_removed:
  assumes c: "removal_contract c hv hn"
    and run: "Destroy c spec s = (None, s')"
  shows "absent hv hn (volume_name ` set (ephemeral_volumes spec)) {UID (SpecMetadata spec)} (fst s')"
proof -
  let ?E = "volume_name ` set (ephemeral_volumes spec)"
  let ?s0 = "Destroy_containers c (Steps spec) s"
  let ?v = "case Docker spec of None \<Rightarrow> (None, ?s0)
      | Some cfg \<Rightarrow> Destroy_volumes c (Volumes cfg) ?s0"
  obtain r1 s1 where v: "?v = (r1, s1)" by (cases ?v)
  with run have r1: "r1 = None"
    by (cases r1) (auto simp: Destroy_def)
  with run v have net: "invoke (NetworkRemoveCall (UID (SpecMetadata spec)))
      (NetworkRemove c (UID (SpecMetadata spec))) s1 = (None, s')"
    by (simp add: Destroy_def)
  have start: "absent hv hn {} {} (fst ?s0)" by (simp add: absent_def)
  have 1: "absent hv hn ?E {} (fst s1)"
  proof (cases "Docker spec")
    case None
    with v show ?thesis by (simp add: ephemeral_names absent_def)
  next
    case (Some cfg)
    with v r1 have "Destroy_volumes c (Volumes cfg) ?s0 = (None, s1)" by simp
    from Destroy_volumes_removed [OF c this start] Some show ?thesis
      by (simp add: ephemeral_names)
  qed
  from net have ok: "fst (NetworkRemove c (UID (SpecMetadata spec)) (fst s1)) = None"
    and s': "fst s' = snd (NetworkRemove c (UID (SpecMetadata spec)) (fst s1))"
    using invoke_fst [of "NetworkRemoveCall (UID (SpecMetadata spec))"
        "NetworkRemove c (UID (SpecMetadata spec))" s1]
      invoke_world [of "NetworkRemoveCall (UID (SpecMetadata spec))"
        "NetworkRemove c (UID (SpecMetadata spec))" s1]
    by simp_all
  have "cleanup_step c (fst s1) (fst s')"
    unfolding cleanup_step_def s' by blast
  with c 1 have "absent hv hn ?E {} (fst s')" by (blast intro: absent_step)
  moreover from c ok have "\<not> hn (fst s') (UID (SpecMetadata spec))"
    unfolding s' removal_contract_def by blast
  ultimately show ?thesis by (simp add: absent_def)
qed

lemma Destroy_absent:
  assumes c: "removal_contract c hv hn"
    and gone: "absent hv hn (volume_name ` set (ephemeral_volumes spec)) {UID (SpecMetadata spec)} (fst s)"
  shows "fst (Destroy c spec s) = None"
proof -
  let ?E = "volume_name ` set (ephemeral_volumes spec)"
  let ?N = "{UID (SpecMetadata spec)}"
  let ?s0 = "Destroy_containers c (Steps spec) s"
  let ?v = "case Docker spec of None \<Rightarrow> (None, ?s0)
      | Some cfg \<Rightarrow> Destroy_volumes c (Volumes cfg) ?s0"
  from c gone have 0: "absent hv hn ?E ?N (fst ?s0)" by (rule Destroy_containers_absent)
  have 1: "fst ?v = None \<and> absent hv hn ?E ?N (fst (snd ?v))"
  proof (cases "Docker spec")
    case None
    with 0 show ?thesis by simp
  next
    case (Some cfg)
    then have "volume_name ` {vol \<in> set (Volumes cfg). EmptyDir vol \<noteq> None} \<subseteq> ?E"
      by (simp add: ephemeral_names)
    from Destroy_volumes_absent [OF c 0 this] Some show ?thesis by simp
  qed
  then have "\<not> hn (fst (snd ?v)) (UID (SpecMetadata spec))" by (simp add: absent_def)
  with c have "fst (NetworkRemove c (UID (SpecMetadata spec)) (fst (snd ?v))) = None"
    unfolding removal_contract_def by blast
  then have "fst (invoke (NetworkRemoveCall (UID (SpecMetadata spec)))
      (NetworkRemove c (UID (SpecMetadata spec))) (snd ?v)) = None"
    by (simp add: invoke_fst)
  with 1 show ?thesis
    by (cases ?v) (auto simp: Destroy_def)
qed

text \<open>
  Claim C9. \<^verbatim>\<open>Destroy\<close> is idempotent under the contract of removal: on a runtime
  where the removal of a volume or network that does not exist succeeds (and where
  what a removal removed no longer exists, and no call of cleanup brings a volume or
  a network into existence), a call of \<^verbatim>\<open>Destroy\<close> in the state in which a call of
  \<^verbatim>\<open>Destroy\<close> that returned no error has left the runtime returns no error.
\<close>

theorem Destroy_idempotent:
  assumes "removal_contract c has_volume has_network"
    and "Destroy c spec s = (None, s')"
  shows "fst (Destroy c spec s') = None"
  using assms by (blast intro: Destroy_absent Destroy_removed)

lemma listed_contract:
  "removal_contract listed (\<lambda>w name. name \<in> set (fst w)) (\<lambda>w name. name \<in> set (snd w))"
  unfolding removal_contract_def cleanup_step_def
  by (auto simp: listed_def)

theorem Destroy_idempotent_witness:
  "removal_contract listed (\<lambda>w name. name \<in> set (fst w)) (\<lambda>w name. name \<in> set (snd w)) \<and>
   Destroy listed demo_spec ((''v2'' # ''v1'' # [], ''run'' # []), []) =
     (None, (([], []),
        [(ContainerKillCall ''s1'' ''9'', Some (ClientError ''not running'')),
         (ContainerRemoveCall ''s1'' True False True, None),
         (VolumeRemoveCall ''v1'' True, None), (VolumeRemoveCall ''v2'' True, None),
         (NetworkRemoveCall ''run'', None)])) \<and>
   fst (Destroy listed demo_spec (([], []),
        [(ContainerKillCall ''s1'' ''9'', Some (ClientError ''not running'')),
         (ContainerRemoveCall ''s1'' True False True, None),
         (VolumeRemoveCall ''v1'' True, None), (VolumeRemoveCall ''v2'' True, None),
         (NetworkRemoveCall ''run'', None)])) = None"
proof -
  have run: "Destroy listed demo_spec ((''v2'' # ''v1'' # [], ''run'' # []), []) =
     (None, (([], []),
        [(ContainerKillCall ''s1'' ''9'', Some (ClientError ''not running'')),
         (ContainerRemoveCall ''s1'' True False True, None),
         (VolumeRemoveCall ''v1'' True, None), (VolumeRemoveCall ''v2'' True, None),
         (NetworkRemoveCall ''run'', None)]))"
    by (simp add: Destroy_def demo_spec_def build_step_def ephemeral_def hostpath_def meta_def
        listed_def invoke_def)
  from listed_contract run Destroy_idempotent [OF listed_contract run] show ?thesis
    by (intro conjI)
qed

section \<open>Image references\<close>


lemma before_after:
  "sep \<in> set s \<Longrightarrow> s = before sep s @ sep # after sep s"
proof -
  assume "sep \<in> set s"
  then have "dropWhile (\<lambda>c. c \<noteq> sep) s \<noteq> []" by (simp add: dropWhile_eq_Nil_conv)
  moreover have "\<And>x xs. dropWhile (\<lambda>c. c \<noteq> sep) s = x # xs \<Longrightarrow> x = sep"
    using hd_dropWhile [of "\<lambda>c. c \<noteq> sep" s] by (metis list.sel(1) list.simps(3))
  ultimately have "dropWhile (\<lambda>c. c \<noteq> sep) s = sep # after sep s"
    by (cases "dropWhile (\<lambda>c. c \<noteq> sep) s") (auto simp: after_def)
  then show ?thesis
    by (metis before_def takeWhile_dropWhile_id)
qed

lemma before_notin: "sep \<notin> set s \<Longrightarrow> before sep s = s"
  by (auto simp: before_def takeWhile_eq_all_conv)

lemma before_no_sep: "sep \<notin> set (before sep s)"
  by (auto simp: before_def dest: set_takeWhileD)

lemma set_before: "set (before sep s) \<subseteq> set s"
  by (auto simp: before_def dest: set_takeWhileD)

lemma split_on_chars:
  "c \<in> set s \<Longrightarrow> c = sep \<or> (\<exists>w \<in> set (split_on sep s). c \<in> set w)"
proof (induction s)
  case Nil
  then show ?case by simp
next
  case (Cons x xs)
  show ?case
  proof (cases "x = sep")
    case True
    with Cons show ?thesis by auto
  next
    case False
    obtain w ws where sp: "split_on sep xs = w # ws"
      by (cases xs; cases "split_on sep xs") (auto split: if_splits list.splits)
    with False have eq: "split_on sep (x # xs) = (x # w) # ws" by simp
    from Cons.prems have "c = x \<or> c \<in> set xs" by simp
    then show ?thesis
    proof
      assume "c = x"
      with eq show ?thesis by simp
    next
      assume "c \<in> set xs"
      from Cons.IH [OF this] sp eq show ?thesis by auto
    qed
  qed
qed

lemma separator_chars: "separator x \<Longrightarrow> c \<in> set x \<Longrightarrow> c \<in> set ''._-''"
  by (auto simp: separator_def list_all_iff)

lemma nameComponent_rest_chars:
  "nameComponent_rest sep cs \<Longrightarrow>
     (\<forall>c \<in> set sep. c \<in> set ''._-'') \<and> (\<forall>c \<in> set cs. lower_alnum c \<or> c \<in> set ''._-'')"
proof (induction cs arbitrary: sep)
  case Nil
  then show ?case by simp
next
  case (Cons x xs)
  show ?case
  proof (cases "lower_alnum x")
    case True
    with Cons.prems have s: "sep = [] \<or> separator sep" and r: "nameComponent_rest [] xs" by simp_all
    from Cons.IH [OF r] have "\<forall>c \<in> set xs. lower_alnum c \<or> c \<in> set ''._-''" by simp
    moreover from s have "\<forall>c \<in> set sep. c \<in> set ''._-''" by (auto dest: separator_chars)
    ultimately show ?thesis using True by simp
  next
    case False
    with Cons.prems have "nameComponent_rest (sep @ [x]) xs" by simp
    from Cons.IH [OF this] show ?thesis by simp
  qed
qed

lemma lower_alnum_reference_char: "lower_alnum c \<Longrightarrow> reference_char c"
  by (auto simp: lower_alnum_def reference_char_def alnum_def)

lemma nameComponent_chars: "nameComponent s \<Longrightarrow> c \<in> set s \<Longrightarrow> reference_char c"
proof -
  assume n: "nameComponent s" and c: "c \<in> set s"
  then obtain x xs where s: "s = x # xs" "lower_alnum x" "nameComponent_rest [] xs"
    by (cases s) (auto simp: nameComponent_def)
  from nameComponent_rest_chars [OF s(3)]
  have "\<forall>c \<in> set xs. lower_alnum c \<or> c \<in> set ''._-''" by simp
  with c s(1,2) have "lower_alnum c \<or> c \<in> set ''._-''" by auto
  then show ?thesis
    by (auto simp: lower_alnum_reference_char) (simp_all add: reference_char_def)
qed

lemma pathMatch_chars: "pathMatch p \<Longrightarrow> c \<in> set p \<Longrightarrow> reference_char c"
proof -
  assume p: "pathMatch p" and c: "c \<in> set p"
  from split_on_chars [OF c, of "CHR ''/''"] show ?thesis
  proof
    assume "c = CHR ''/''"
    then show ?thesis by (simp add: reference_char_def)
  next
    assume "\<exists>w \<in> set (split_on CHR ''/'' p). c \<in> set w"
    with p show ?thesis by (auto simp: pathMatch_def list_all_iff dest: nameComponent_chars)
  qed
qed

lemma digit_alnum: "digit c \<Longrightarrow> alnum c"
  by (auto simp: digit_def alnum_def)

lemma domainMatch_chars: "domainMatch d \<Longrightarrow> c \<in> set d \<Longrightarrow> reference_char c"
proof -
  assume d: "domainMatch d" and c: "c \<in> set d"
  have host: "reference_char x" if "x \<in> set (before CHR '':'' d)" for x
    using split_on_chars [OF that, of "CHR ''.''"]
  proof
    assume "x = CHR ''.''"
    then show ?thesis by (simp add: reference_char_def)
  next
    assume "\<exists>w \<in> set (split_on CHR ''.'' (before CHR '':'' d)). x \<in> set w"
    with d have "alnum x \<or> x = CHR ''-''"
      by (auto simp: domainMatch_def domainComponent_def list_all_iff)
    then show ?thesis by (auto simp: reference_char_def)
  qed
  show ?thesis
  proof (cases "CHR '':'' \<in> set d")
    case False
    with c host show ?thesis by (simp add: before_notin)
  next
    case True
    from before_after [OF True] c
    have "c \<in> set (before CHR '':'' d) \<or> c = CHR '':'' \<or> c \<in> set (after CHR '':'' d)"
      by (metis Un_iff set_ConsD set_append)
    moreover from d True have "\<forall>x \<in> set (after CHR '':'' d). digit x"
      by (simp add: domainMatch_def list_all_iff)
    ultimately show ?thesis using host
      by (auto simp: reference_char_def dest: digit_alnum)
  qed
qed

lemma tagMatch_chars: "tagMatch t \<Longrightarrow> c \<in> set t \<Longrightarrow> word_char c \<or> c = CHR ''.'' \<or> c = CHR ''-''"
  by (cases t) (auto simp: tagMatch_def list_all_iff)

lemma tagMatch_reference_char: "tagMatch t \<Longrightarrow> c \<in> set t \<Longrightarrow> reference_char c"
  by (drule (1) tagMatch_chars) (auto simp: reference_char_def word_char_def)

lemma tagMatch_no_colon: "tagMatch t \<Longrightarrow> CHR '':'' \<notin> set t"
  by (auto dest!: tagMatch_chars simp: word_char_def alnum_def)

lemma lower_hex_alnum: "lower_hex c \<Longrightarrow> alnum c"
  by (auto simp: lower_hex_def alnum_def)

lemma digestValid_chars: "digestValid d \<Longrightarrow> c \<in> set d \<Longrightarrow> reference_char c"
proof -
  assume d: "digestValid d" and c: "c \<in> set d"
  then have colon: "CHR '':'' \<in> set d" by (simp add: digestValid_def)
  from before_after [OF colon] c
  have "c \<in> set (before CHR '':'' d) \<or> c = CHR '':'' \<or> c \<in> set (after CHR '':'' d)"
    by (metis Un_iff set_ConsD set_append)
  moreover from d have "\<forall>x \<in> set (after CHR '':'' d). lower_hex x"
    by (simp add: digestValid_def list_all_iff)
  moreover from d have "\<forall>x \<in> set (before CHR '':'' d). alnum x"
    by (auto simp: digestValid_def alnum_def)
  ultimately show ?thesis
    by (auto simp: reference_char_def dest: lower_hex_alnum)
qed


lemma last_colon:
  assumes "CHR '':'' \<in> set front"
  shows "front = take (length front - length (rev (before CHR '':'' (rev front))) - 1) front @
           CHR '':'' # rev (before CHR '':'' (rev front))"
proof -
  let ?t = "rev (before CHR '':'' (rev front))"
  let ?a = "rev (after CHR '':'' (rev front))"
  from assms have "CHR '':'' \<in> set (rev front)" by simp
  from before_after [OF this]
  have "rev front = before CHR '':'' (rev front) @ CHR '':'' # after CHR '':'' (rev front)" .
  then have "rev (rev front) = rev (before CHR '':'' (rev front) @ CHR '':'' # after CHR '':'' (rev front))"
    by simp
  then have eq: "front = ?a @ CHR '':'' # ?t" by simp
  then have "length front = length ?a + 1 + length ?t" by (metis length_append length_Cons add.commute add.assoc One_nat_def plus_1_eq_Suc)
  then have "length front - length ?t - 1 = length ?a" by simp
  moreover have "take (length ?a) front = ?a" by (subst eq) simp
  ultimately show ?thesis using eq by simp
qed

lemma splitName_chars: "splitName name = Some dp \<Longrightarrow> c \<in> set name \<Longrightarrow> reference_char c"
proof -
  assume sp: "splitName name = Some dp" and c: "c \<in> set name"
  show ?thesis
  proof (cases "CHR ''/'' \<in> set name \<and> domainMatch (before CHR ''/'' name) \<and>
      pathMatch (after CHR ''/'' name)")
    case True
    then have "name = before CHR ''/'' name @ CHR ''/'' # after CHR ''/'' name"
      by (simp add: before_after)
    with c have "c \<in> set (before CHR ''/'' name) \<or> c = CHR ''/'' \<or> c \<in> set (after CHR ''/'' name)"
      by (metis Un_iff set_ConsD set_append)
    with True show ?thesis
      by (auto dest: domainMatch_chars pathMatch_chars simp: reference_char_def)
  next
    case False
    with sp have "pathMatch name" by (auto simp: splitName_def split: if_splits)
    with c show ?thesis by (rule pathMatch_chars [rotated])
  qed
qed

lemma Parse_fields:
  "Parse s = Some r \<Longrightarrow>
     (RefTag r = [] \<or> tagMatch (RefTag r)) \<and> (RefDigest r = [] \<or> digestValid (RefDigest r))"
  by (auto simp: Parse_def Let_def split: if_splits option.splits)

lemma Parse_chars:
  assumes p: "Parse s = Some r" and c: "c \<in> set s"
  shows "reference_char c"
proof -
  let ?front = "before CHR ''@'' s"
  let ?t = "rev (before CHR '':'' (rev ?front))"
  let ?tagged = "CHR '':'' \<in> set ?front \<and> CHR ''/'' \<notin> set ?t"
  let ?name = "if ?tagged then take (length ?front - length ?t - 1) ?front else ?front"
  from p have dg: "CHR ''@'' \<in> set s \<longrightarrow> digestValid (after CHR ''@'' s)"
    and tg: "?tagged \<longrightarrow> tagMatch ?t"
    and nm: "\<exists>dp. splitName ?name = Some dp"
    by (auto simp: Parse_def Let_def split: if_splits option.splits)
  have front: "reference_char x" if "x \<in> set ?front" for x
  proof (cases ?tagged)
    case False
    with nm that show ?thesis by (auto dest: splitName_chars)
  next
    case True
    then have "?front = ?name @ CHR '':'' # ?t" using last_colon [of ?front] by simp
    with that have "x \<in> set ?name \<or> x = CHR '':'' \<or> x \<in> set ?t"
      by (metis Un_iff set_ConsD set_append)
    with nm tg True show ?thesis
      by (auto dest: splitName_chars tagMatch_reference_char simp: reference_char_def)
  qed
  show ?thesis
  proof (cases "CHR ''@'' \<in> set s")
    case False
    with c front show ?thesis by (simp add: before_notin)
  next
    case True
    from before_after [OF True] c
    have "c \<in> set ?front \<or> c = CHR ''@'' \<or> c \<in> set (after CHR ''@'' s)"
      by (metis Un_iff set_ConsD set_append)
    with front dg True show ?thesis
      by (auto dest: digestValid_chars simp: reference_char_def)
  qed
qed

lemma splitDockerDomain_chars:
  assumes "splitDockerDomain s = (d, r)" "c \<in> set s"
  shows "c \<in> set (d @ ''/'' @ r) \<or> c \<in> set legacyDefaultDomain"
proof (cases "CHR ''/'' \<notin> set s \<or>
    (CHR ''.'' \<notin> set (before CHR ''/'' s) \<and> CHR '':'' \<notin> set (before CHR ''/'' s) \<and>
     before CHR ''/'' s \<noteq> ''localhost'')")
  case True
  with assms(1) have "r = s \<or> r = officialRepoName @ ''/'' @ s"
    by (auto simp: splitDockerDomain_def Let_def split: if_splits)
  with assms(2) show ?thesis by auto
next
  case False
  then have sl: "CHR ''/'' \<in> set s" by blast
  from False assms(1) have r: "r = after CHR ''/'' s \<or> r = officialRepoName @ ''/'' @ after CHR ''/'' s"
    and d: "d = before CHR ''/'' s \<or> before CHR ''/'' s = legacyDefaultDomain"
    by (auto simp: splitDockerDomain_def Let_def split: if_splits)
  from before_after [OF sl] assms(2)
  have "c \<in> set (before CHR ''/'' s) \<or> c = CHR ''/'' \<or> c \<in> set (after CHR ''/'' s)"
    by (metis Un_iff set_ConsD set_append)
  with r d show ?thesis by auto
qed

lemma legacy_chars: "c \<in> set legacyDefaultDomain \<Longrightarrow> reference_char c"
  by (auto simp: legacyDefaultDomain_def reference_char_def alnum_def)

lemma ParseNormalizedNamed_chars:
  assumes "ParseNormalizedNamed s = Some named" "c \<in> set s"
  shows "reference_char c"
proof -
  obtain d r where sp: "splitDockerDomain s = (d, r)" by (cases "splitDockerDomain s")
  with assms(1) have "Parse (d @ ''/'' @ r) = Some named"
    by (auto simp: ParseNormalizedNamed_def split: if_splits)
  then have "\<forall>x \<in> set (d @ ''/'' @ r). reference_char x" by (blast dest: Parse_chars)
  with splitDockerDomain_chars [OF sp assms(2)] show ?thesis
    by (blast dest: legacy_chars)
qed

lemma ParseNormalizedNamed_fields:
  assumes "ParseNormalizedNamed s = Some named"
  shows "(RefTag named = [] \<or> tagMatch (RefTag named)) \<and>
         (RefDigest named = [] \<or> digestValid (RefDigest named))"
proof -
  obtain d r where sp: "splitDockerDomain s = (d, r)" by (cases "splitDockerDomain s")
  with assms(1) have "Parse (d @ ''/'' @ r) = Some named"
    by (auto simp: ParseNormalizedNamed_def split: if_splits)
  then show ?thesis by (rule Parse_fields)
qed

lemma parseImage_invalid_chars:
  assumes "c \<in> set s" "\<not> reference_char c"
  shows "parseImage s = Inl InvalidReference"
proof (cases "ParseNormalizedNamed s")
  case None
  then show ?thesis by (simp add: parseImage_def)
next
  case (Some named)
  from ParseNormalizedNamed_chars [OF this assms(1)] assms(2) show ?thesis by simp
qed


text \<open>
  Claim C6. \<^verbatim>\<open>parseImage("alpine")\<close> returns the canonical name
  \<^verbatim>\<open>docker.io/library/alpine:latest\<close>, the domain \<^verbatim>\<open>docker.io\<close> and latest = true;
  \<^verbatim>\<open>parseImage("alpine:3.9")\<close> returns latest = false; and the empty string, and
  every string with a character that is not a character of the grammar of
  references, is rejected with the error of an invalid reference.
\<close>

theorem parseImage_examples:
  "parseImage ''alpine'' = Inr (''docker.io/library/alpine:latest'', ''docker.io'', True) \<and>
   parseImage ''alpine:3.9'' = Inr (''docker.io/library/alpine:3.9'', ''docker.io'', False) \<and>
   parseImage '''' = Inl InvalidReference \<and>
   (\<forall>s. (\<exists>c \<in> set s. \<not> reference_char c) \<longrightarrow> parseImage s = Inl InvalidReference)"
proof (intro conjI allI impI)
  show "parseImage ''alpine'' = Inr (''docker.io/library/alpine:latest'', ''docker.io'', True)"
    by (rule parseImage_alpine)
  show "parseImage ''alpine:3.9'' = Inr (''docker.io/library/alpine:3.9'', ''docker.io'', False)"
    by code_simp
  show "parseImage '''' = Inl InvalidReference"
    by code_simp
  fix s assume "\<exists>c \<in> set s. \<not> reference_char c"
  then show "parseImage s = Inl InvalidReference"
    by (blast intro: parseImage_invalid_chars)
qed

theorem parseImage_examples_witness:
  "(\<exists>c \<in> set ''alpine 3.9''. \<not> reference_char c) \<and> parseImage ''alpine 3.9'' = Inl InvalidReference"
proof -
  have "\<not> reference_char CHR '' ''" by (simp add: reference_char_def alnum_def)
  then have h: "\<exists>c \<in> set ''alpine 3.9''. \<not> reference_char c" by simp
  with parseImage_examples show ?thesis by blast
qed

lemma HasSuffix_iff: "HasSuffix s suf \<longleftrightarrow> (\<exists>p. s = p @ suf)"
proof
  assume "HasSuffix s suf"
  then have "s = take (length s - length suf) s @ suf"
    by (metis HasSuffix_def append_take_drop_id)
  then show "\<exists>p. s = p @ suf" ..
next
  assume "\<exists>p. s = p @ suf"
  then show "HasSuffix s suf" by (auto simp: HasSuffix_def)
qed

lemma after_last_sep:
  assumes "xs @ a # ys = xs' @ a # ys'" "a \<notin> set ys" "a \<notin> set ys'"
  shows "ys = ys'"
proof -
  have "takeWhile (\<lambda>c. c \<noteq> a) (rev (xs @ a # ys)) = rev ys"
    using assms(2) by (auto simp: takeWhile_tail takeWhile_eq_all_conv)
  moreover have "takeWhile (\<lambda>c. c \<noteq> a) (rev (xs' @ a # ys')) = rev ys'"
    using assms(3) by (auto simp: takeWhile_tail takeWhile_eq_all_conv)
  ultimately have "rev ys = rev ys'" using assms(1) by simp
  then show ?thesis by simp
qed

lemma HasSuffix_tag:
  assumes "CHR '':'' \<notin> set t"
  shows "HasSuffix (n @ '':'' @ t) '':latest'' \<longleftrightarrow> t = ''latest''"
proof
  assume "HasSuffix (n @ '':'' @ t) '':latest''"
  then obtain p where "n @ CHR '':'' # t = p @ CHR '':'' # ''latest''"
    by (auto simp: HasSuffix_iff)
  from after_last_sep [OF this assms] show "t = ''latest''" by simp
next
  assume "t = ''latest''"
  then show "HasSuffix (n @ '':'' @ t) '':latest''"
    unfolding HasSuffix_iff by (intro exI [of _ n]) simp
qed

lemma digestValid_last: "digestValid d \<Longrightarrow> d \<noteq> [] \<and> lower_hex (last d)"
proof -
  assume d: "digestValid d"
  then have colon: "CHR '':'' \<in> set d" by (simp add: digestValid_def)
  from d have ne: "after CHR '':'' d \<noteq> []" by (auto simp: digestValid_def)
  from before_after [OF colon] have "last d = last (before CHR '':'' d @ CHR '':'' # after CHR '':'' d)"
    by simp
  with ne have "last d = last (after CHR '':'' d)" by simp
  moreover from d ne have "lower_hex (last (after CHR '':'' d))"
    by (simp add: digestValid_def list_all_iff)
  ultimately show ?thesis using colon by auto
qed

lemma HasSuffix_digest:
  assumes "digestValid d"
  shows "\<not> HasSuffix (n @ ''@'' @ d) '':latest''"
proof
  assume "HasSuffix (n @ ''@'' @ d) '':latest''"
  then obtain p where "n @ ''@'' @ d = p @ '':latest''" by (auto simp: HasSuffix_iff)
  then have "last (n @ ''@'' @ d) = last (p @ '':latest'')" by simp
  moreover from digestValid_last [OF assms] have "last (n @ ''@'' @ d) = last d" by simp
  ultimately have "last d = CHR ''t''" by simp
  with digestValid_last [OF assms] show False by (simp add: lower_hex_def)
qed

text \<open>
  Claim C5, as amended. For every string that the parser accepts as a reference
  without a digest, the canonical name that \<^verbatim>\<open>parseImage\<close> returns carries an
  explicit tag, which is \<^verbatim>\<open>latest\<close> when none was given and the given tag otherwise,
  and the flag returned is true if and only if that tag is exactly \<^verbatim>\<open>latest\<close>. For
  every accepted reference with a digest and no tag, no tag is added, the canonical
  name is the name with the digest, and the flag is false.
\<close>

theorem parseImage_latest:
  assumes "ParseNormalizedNamed s = Some named"
  shows "(RefDigest named = [] \<longrightarrow>
            RefTag (TagNameOnly named) = (if RefTag named = [] then ''latest'' else RefTag named) \<and>
            parseImage s =
              Inr (reference_Name named @ '':'' @ RefTag (TagNameOnly named), RefDomain named,
                   RefTag (TagNameOnly named) = ''latest'')) \<and>
         (RefDigest named \<noteq> [] \<and> RefTag named = [] \<longrightarrow>
            RefTag (TagNameOnly named) = [] \<and>
            parseImage s =
              Inr (reference_Name named @ ''@'' @ RefDigest named, RefDomain named, False))"
proof (intro conjI impI)
  assume nd: "RefDigest named = []"
  let ?tag = "if RefTag named = [] then ''latest'' else RefTag named"
  show tag: "RefTag (TagNameOnly named) = ?tag"
    using nd by (simp add: TagNameOnly_def defaultTag_def)
  from ParseNormalizedNamed_fields [OF assms] have "CHR '':'' \<notin> set ?tag"
    by (auto dest: tagMatch_no_colon)
  then have "HasSuffix (reference_Name named @ '':'' @ ?tag) '':latest'' \<longleftrightarrow> ?tag = ''latest''"
    by (rule HasSuffix_tag)
  moreover have "reference_String (TagNameOnly named) = reference_Name named @ '':'' @ ?tag"
    using nd by (simp add: reference_String_def reference_Name_def TagNameOnly_def defaultTag_def)
  moreover have "reference_Domain (TagNameOnly named) = RefDomain named"
    by (simp add: reference_Domain_def TagNameOnly_def)
  ultimately show "parseImage s =
      Inr (reference_Name named @ '':'' @ RefTag (TagNameOnly named), RefDomain named,
           RefTag (TagNameOnly named) = ''latest'')"
    using assms tag by (simp add: parseImage_def Let_def)
next
  assume "RefDigest named \<noteq> [] \<and> RefTag named = []"
  then have d: "RefDigest named \<noteq> []" and t: "RefTag named = []" by simp_all
  then have same: "TagNameOnly named = named" by (simp add: TagNameOnly_def)
  with t show "RefTag (TagNameOnly named) = []" by simp
  from ParseNormalizedNamed_fields [OF assms] d have "digestValid (RefDigest named)" by simp
  then have "\<not> HasSuffix (reference_Name named @ ''@'' @ RefDigest named) '':latest''"
    by (rule HasSuffix_digest)
  moreover have "reference_String named = reference_Name named @ ''@'' @ RefDigest named"
    using d t by (simp add: reference_String_def)
  ultimately show "parseImage s =
      Inr (reference_Name named @ ''@'' @ RefDigest named, RefDomain named, False)"
    using assms same by (simp add: parseImage_def Let_def reference_Domain_def)
qed

lemma ParseNormalizedNamed_alpine: "ParseNormalizedNamed ''alpine'' = Some alpine_ref"
  by code_simp

lemma ParseNormalizedNamed_pinned: "ParseNormalizedNamed pinned = Some pinned_ref"
  by code_simp

text \<open>
  The claim C5 as stated, that a tag is forced onto every accepted reference for
  which none was given, fails for a reference pinned by a digest: the parser accepts
  it, it has no tag, and the canonical name returned has none.
\<close>

theorem parseImage_digest_counterexample:
  "ParseNormalizedNamed pinned = Some pinned_ref \<and>
   RefTag pinned_ref = [] \<and>
   RefTag (TagNameOnly pinned_ref) = [] \<and>
   parseImage pinned =
     Inr (''docker.io/library/alpine@sha256:9a839e63dad54c3a6d1834e29692c8492d93f90c59c978c1ed79109ea4fb9a54'',
          ''docker.io'', False)"
proof (intro conjI)
  show "ParseNormalizedNamed pinned = Some pinned_ref" by (rule ParseNormalizedNamed_pinned)
  show "RefTag pinned_ref = []" by (simp add: pinned_ref_def)
  show "RefTag (TagNameOnly pinned_ref) = []" by (simp add: pinned_ref_def TagNameOnly_def)
  show "parseImage pinned =
     Inr (''docker.io/library/alpine@sha256:9a839e63dad54c3a6d1834e29692c8492d93f90c59c978c1ed79109ea4fb9a54'',
          ''docker.io'', False)"
    by code_simp
qed

theorem parseImage_latest_witness:
  "ParseNormalizedNamed ''alpine'' = Some alpine_ref \<and> RefDigest alpine_ref = [] \<and>
   RefTag (TagNameOnly alpine_ref) = ''latest'' \<and>
   parseImage ''alpine'' = Inr (''docker.io/library/alpine:latest'', ''docker.io'', True) \<and>
   ParseNormalizedNamed pinned = Some pinned_ref \<and>
   RefDigest pinned_ref \<noteq> [] \<and> RefTag pinned_ref = [] \<and>
   RefTag (TagNameOnly pinned_ref) = [] \<and>
   parseImage pinned =
     Inr (reference_Name pinned_ref @ ''@'' @ RefDigest pinned_ref, ''docker.io'', False)"
proof -
  have a: "RefDigest alpine_ref = []" "RefTag alpine_ref = []"
    "reference_Name alpine_ref = ''docker.io/library/alpine''" "RefDomain alpine_ref = ''docker.io''"
    by (simp_all add: alpine_ref_def reference_Name_def)
  have p: "RefDigest pinned_ref \<noteq> []" "RefTag pinned_ref = []" "RefDomain pinned_ref = ''docker.io''"
    by (simp_all add: pinned_ref_def)
  from parseImage_latest [OF ParseNormalizedNamed_alpine] a
  have 1: "RefTag (TagNameOnly alpine_ref) = ''latest''"
    "parseImage ''alpine'' = Inr (''docker.io/library/alpine:latest'', ''docker.io'', True)"
    by simp_all
  from parseImage_latest [OF ParseNormalizedNamed_pinned] p
  have 2: "RefTag (TagNameOnly pinned_ref) = []"
    "parseImage pinned =
       Inr (reference_Name pinned_ref @ ''@'' @ RefDigest pinned_ref, ''docker.io'', False)"
    by simp_all
  from ParseNormalizedNamed_alpine a(1) 1 ParseNormalizedNamed_pinned p(1,2) 2 show ?thesis
    by (intro conjI)
qed

end
